theory Spec2Isabelle
  imports Complex_Main "HOL-Library.Word"
begin

section \<open>The Metropolis-Hastings scanner of Cosmo++ (class Math::MetropolisHastings)\<close>

text \<open>
  The embedding follows the header \<^verbatim>\<open>mcmc.hpp\<close> (the second document of
  \<^verbatim>\<open>src/source/test_polychord.cpp\<close>, lines 249 to 801): the class
  \<^verbatim>\<open>MetropolisHastings\<close>, its constructor, \<^verbatim>\<open>setParam\<close>,
  \<^verbatim>\<open>setParamGauss\<close>, \<^verbatim>\<open>specifyParameterBlocks\<close>, the private helpers and
  \<^verbatim>\<open>run\<close>.
\<close>

subsection \<open>Values of type double\<close>

text \<open>
  A \<^verbatim>\<open>double\<close> is a finite number or one of the three special values of IEEE 754.
  Rounding and overflow are idealised away: finite values are real numbers and the
  arithmetic on them is exact. The special values follow the IEEE rules (a NaN operand
  gives NaN, every comparison with NaN is false, \<open>0/0\<close> and \<open>\<infinity> - \<infinity>\<close> and
  \<open>0 * \<infinity>\<close> are NaN, a nonzero number divided by zero is an infinity). Zero has no
  sign here; it is read as \<open>+0\<close>.
\<close>

datatype double = Fin real | PInf | NInf | NaN

fun dneg :: "double \<Rightarrow> double" where
  "dneg (Fin x) = Fin (- x)"
| "dneg PInf = NInf"
| "dneg NInf = PInf"
| "dneg NaN = NaN"

fun dadd :: "double \<Rightarrow> double \<Rightarrow> double" where
  "dadd (Fin x) (Fin y) = Fin (x + y)"
| "dadd (Fin x) PInf = PInf"
| "dadd (Fin x) NInf = NInf"
| "dadd (Fin x) NaN = NaN"
| "dadd PInf (Fin y) = PInf"
| "dadd PInf PInf = PInf"
| "dadd PInf NInf = NaN"
| "dadd PInf NaN = NaN"
| "dadd NInf (Fin y) = NInf"
| "dadd NInf PInf = NaN"
| "dadd NInf NInf = NInf"
| "dadd NInf NaN = NaN"
| "dadd NaN y = NaN"

definition dsub :: "double \<Rightarrow> double \<Rightarrow> double" where
  "dsub a b = dadd a (dneg b)"

fun dmul :: "double \<Rightarrow> double \<Rightarrow> double" where
  "dmul (Fin x) (Fin y) = Fin (x * y)"
| "dmul (Fin x) PInf = (if x = 0 then NaN else if 0 < x then PInf else NInf)"
| "dmul (Fin x) NInf = (if x = 0 then NaN else if 0 < x then NInf else PInf)"
| "dmul (Fin x) NaN = NaN"
| "dmul PInf (Fin y) = (if y = 0 then NaN else if 0 < y then PInf else NInf)"
| "dmul PInf PInf = PInf"
| "dmul PInf NInf = NInf"
| "dmul PInf NaN = NaN"
| "dmul NInf (Fin y) = (if y = 0 then NaN else if 0 < y then NInf else PInf)"
| "dmul NInf PInf = NInf"
| "dmul NInf NInf = PInf"
| "dmul NInf NaN = NaN"
| "dmul NaN y = NaN"

fun ddiv :: "double \<Rightarrow> double \<Rightarrow> double" where
  "ddiv (Fin x) (Fin y) =
     (if y = 0 then (if x = 0 then NaN else if 0 < x then PInf else NInf) else Fin (x / y))"
| "ddiv (Fin x) PInf = Fin 0"
| "ddiv (Fin x) NInf = Fin 0"
| "ddiv (Fin x) NaN = NaN"
| "ddiv PInf (Fin y) = (if 0 \<le> y then PInf else NInf)"
| "ddiv PInf PInf = NaN"
| "ddiv PInf NInf = NaN"
| "ddiv PInf NaN = NaN"
| "ddiv NInf (Fin y) = (if 0 \<le> y then NInf else PInf)"
| "ddiv NInf PInf = NaN"
| "ddiv NInf NInf = NaN"
| "ddiv NInf NaN = NaN"
| "ddiv NaN y = NaN"

fun dexp :: "double \<Rightarrow> double" where
  "dexp (Fin x) = Fin (exp x)"
| "dexp PInf = PInf"
| "dexp NInf = Fin 0"
| "dexp NaN = NaN"

fun dsqrt :: "double \<Rightarrow> double" where
  "dsqrt (Fin x) = (if x < 0 then NaN else Fin (sqrt x))"
| "dsqrt PInf = PInf"
| "dsqrt NInf = NaN"
| "dsqrt NaN = NaN"

text \<open>The comparisons \<^verbatim>\<open><\<close>, \<^verbatim>\<open><=\<close>, \<^verbatim>\<open>>\<close>, \<^verbatim>\<open>>=\<close> and \<^verbatim>\<open>==\<close> of C++.\<close>

fun dlt :: "double \<Rightarrow> double \<Rightarrow> bool" where
  "dlt (Fin x) (Fin y) = (x < y)"
| "dlt (Fin x) PInf = True"
| "dlt (Fin x) NInf = False"
| "dlt (Fin x) NaN = False"
| "dlt PInf y = False"
| "dlt NInf (Fin y) = True"
| "dlt NInf PInf = True"
| "dlt NInf NInf = False"
| "dlt NInf NaN = False"
| "dlt NaN y = False"

fun dle :: "double \<Rightarrow> double \<Rightarrow> bool" where
  "dle (Fin x) (Fin y) = (x \<le> y)"
| "dle (Fin x) PInf = True"
| "dle (Fin x) NInf = False"
| "dle (Fin x) NaN = False"
| "dle PInf (Fin y) = False"
| "dle PInf PInf = True"
| "dle PInf NInf = False"
| "dle PInf NaN = False"
| "dle NInf (Fin y) = True"
| "dle NInf PInf = True"
| "dle NInf NInf = True"
| "dle NInf NaN = False"
| "dle NaN y = False"

definition dgt :: "double \<Rightarrow> double \<Rightarrow> bool" where
  "dgt a b = dlt b a"

definition dge :: "double \<Rightarrow> double \<Rightarrow> bool" where
  "dge a b = dle b a"

definition deq :: "double \<Rightarrow> double \<Rightarrow> bool" where
  "deq a b = (a \<noteq> NaN \<and> b \<noteq> NaN \<and> a = b)"


text \<open>The conversion \<^verbatim>\<open>double(iteration_)\<close> of an \<^verbatim>\<open>unsigned long\<close>.\<close>

definition double_of_ulong :: "64 word \<Rightarrow> double" where
  "double_of_ulong k = Fin (real (unat k))"

text \<open>\<^verbatim>\<open>std::numeric_limits<double>::max()\<close>, the default of the optional arguments.\<close>

definition DBL_MAX :: double where
  "DBL_MAX = Fin ((2 - 1 / 2 ^ 52) * 2 ^ 1023)"

subsection \<open>Errors, the external collaborators and the engine's state\<close>

text \<open>
  An exception of the source is a value of type \<open>error\<close>. The macro \<^verbatim>\<open>check\<close> of
  \<^verbatim>\<open>macros.hpp\<close> throws when the library is compiled with \<^verbatim>\<open>CHECKS_ON\<close> and
  expands to nothing otherwise; the flag is a parameter (\<open>CHECKS_ON\<close> below). A
  vector constructed with a negative size throws \<^verbatim>\<open>std::length_error\<close>; an index
  outside a vector is undefined behaviour, reported as \<open>UndefinedBehaviour\<close>.
\<close>

datatype fname = ParamNamesFile | ChainFile | ResumeFile

datatype error =
    CheckFailed string
  | CannotWrite fname
  | LengthError
  | UndefinedBehaviour

datatype PRIOR_MODE = UNIFORM_PRIOR | GAUSSIAN_PRIOR | PRIOR_MODE_MAX

text \<open>
  \<^verbatim>\<open>ProposalFunctionBase\<close>: \<open>generate\<close> gets the number of earlier calls (the
  plug-in's own random state), the full current vector, the block index and the block
  buffer, and returns the buffer filled; \<open>calculate\<close> gets the full vector, the block
  and the block index.
\<close>

record proposal =
  generate :: "nat \<Rightarrow> double list \<Rightarrow> nat \<Rightarrow> double list \<Rightarrow> double list"
  calculate :: "double list \<Rightarrow> double list \<Rightarrow> nat \<Rightarrow> double"
  isSymmetric :: "nat \<Rightarrow> bool"

text \<open>
  What the class takes from outside: the compile-time flag, the stream of standard
  normal draws of \<^verbatim>\<open>generator_\<close>, the stream of results of \<^verbatim>\<open>std::rand()\<close> with
  \<^verbatim>\<open>RAND_MAX\<close>, and the text that \<^verbatim>\<open>operator<<\<close> prints for a double.
\<close>

record env =
  CHECKS_ON :: bool
  gauss :: "nat \<Rightarrow> double"
  rand :: "nat \<Rightarrow> nat"
  RAND_MAX :: nat
  show_double :: "double \<Rightarrow> string"

text \<open>
  The members of the class, the trailing underscore of their names dropped (\<open>n_par\<close> is
  \<^verbatim>\<open>n_\<close>). \<open>generator\<close> and \<open>proposal_calls\<close> count the draws taken from
  \<^verbatim>\<open>generator_\<close> and the calls of the plug-in's \<open>generate\<close>. The stream \<^verbatim>\<open>out_\<close> is
  its two flags: whether a file is open and whether the stream has failed.
\<close>

record mh =
  n_par :: int
  like :: "double list \<Rightarrow> double"
  paramNames :: "string list"
  param1 :: "double list"
  param2 :: "double list"
  starting :: "double list"
  samplingWidth :: "double list"
  accuracy :: "double list"
  paramSum :: "double list"
  paramSquaredSum :: "double list"
  corSum :: "double list"
  priorMods :: "PRIOR_MODE list"
  externalPrior :: "(double list \<Rightarrow> double) option"
  externalProposal :: "proposal option"
  blocks :: "int list"
  generator :: nat
  proposal_calls :: nat
  prev :: "double list"
  current :: "double list"
  maxChainLength :: "64 word"
  iteration :: "64 word"
  currentLike :: double
  currentPrior :: double
  resumeCode :: int
  out_open :: bool
  out_fail :: bool

text \<open>
  The checkpoint file is the sequence of the values written, one cell for each scalar
  and each array element. The three files of a run, what \<^verbatim>\<open>std::rand\<close> has already
  given, and which files can be opened for writing:
\<close>

datatype cell = CULong "64 word" | CDouble double | CInt int

record world =
  paramnames_file :: "string option"
  chain_file :: "string option"
  resume_file :: "cell list option"
  writable :: "fname \<Rightarrow> bool"
  rand_calls :: nat

definition check_fails :: "env \<Rightarrow> bool \<Rightarrow> bool" where
  "check_fails e cond = (CHECKS_ON e \<and> \<not> cond)"

text \<open>A loop over indices whose body may throw.\<close>

fun forE :: "nat list \<Rightarrow> (nat \<Rightarrow> 'a \<Rightarrow> error + 'a) \<Rightarrow> 'a \<Rightarrow> error + 'a" where
  "forE [] f a = Inr a"
| "forE (i # js) f a = (case f i a of Inl x \<Rightarrow> Inl x | Inr a' \<Rightarrow> forE js f a')"

subsection \<open>Construction and configuration\<close>

text \<open>
  The constructor (lines 317 to 334). The vectors are built in the initialiser list,
  before the body runs its \<^verbatim>\<open>check\<close>. The members \<^verbatim>\<open>maxChainLength_\<close>,
  \<^verbatim>\<open>iteration_\<close>, \<^verbatim>\<open>currentLike_\<close> and \<^verbatim>\<open>currentPrior_\<close> are left uninitialised: their
  indeterminate values are the last argument.
\<close>

definition MetropolisHastings ::
  "env \<Rightarrow> int \<Rightarrow> (double list \<Rightarrow> double) \<Rightarrow> 64 word \<times> 64 word \<times> double \<times> double \<Rightarrow> error + mh" where
  "MetropolisHastings e nPar lk junk =
     (if nPar < 0 then Inl LengthError
      else if check_fails e (0 < nPar) then Inl (CheckFailed [])
      else Inr \<lparr>
        n_par = nPar,
        like = lk,
        paramNames = replicate (nat nPar) [],
        param1 = replicate (nat nPar) (Fin 0),
        param2 = replicate (nat nPar) (Fin 0),
        starting = replicate (nat nPar) DBL_MAX,
        samplingWidth = replicate (nat nPar) (Fin 0),
        accuracy = replicate (nat nPar) (Fin 0),
        paramSum = replicate (nat nPar) (Fin 0),
        paramSquaredSum = replicate (nat nPar) (Fin 0),
        corSum = replicate (nat nPar) (Fin 0),
        priorMods = replicate (nat nPar) PRIOR_MODE_MAX,
        externalPrior = None,
        externalProposal = None,
        blocks = map int [1..<Suc (nat nPar)],
        generator = 0,
        proposal_calls = 0,
        prev = replicate (nat nPar) (Fin 0),
        current = replicate (nat nPar) (Fin 0),
        maxChainLength = fst junk,
        iteration = fst (snd junk),
        currentLike = fst (snd (snd junk)),
        currentPrior = snd (snd (snd junk)),
        resumeCode = 123456,
        out_open = False,
        out_fail = False \<rparr>)"

text \<open>\<^verbatim>\<open>setParam\<close> (lines 577 to 604).\<close>

definition setParam ::
  "env \<Rightarrow> int \<Rightarrow> string \<Rightarrow> double \<Rightarrow> double \<Rightarrow> double \<Rightarrow> double \<Rightarrow> double \<Rightarrow> mh \<Rightarrow> error + mh" where
  "setParam e i name mn mx start width acc s =
     (if check_fails e (0 \<le> i \<and> i < n_par s) then Inl (CheckFailed ''invalid index'')
      else if check_fails e (dgt mx mn) then Inl (CheckFailed ''Need max > min.'')
      else if \<not> (0 \<le> i \<and> i < n_par s) then Inl UndefinedBehaviour
      else if check_fails e (dge width (Fin 0)) then Inl (CheckFailed ''invalid sampling width'')
      else if check_fails e (dge acc (Fin 0)) then Inl (CheckFailed ''invalid accuracy'')
      else
        let k = nat i;
            st = (if deq start DBL_MAX then ddiv (dadd mx mn) (Fin 2) else start);
            sw = (if deq width (Fin 0) then ddiv (dsub mx mn) (Fin 100) else width);
            ac = (if deq acc (Fin 0) then ddiv sw (Fin 10) else acc)
        in Inr (s\<lparr> paramNames := (paramNames s)[k := name],
                   param1 := (param1 s)[k := mn],
                   param2 := (param2 s)[k := mx],
                   priorMods := (priorMods s)[k := UNIFORM_PRIOR],
                   starting := (starting s)[k := st],
                   samplingWidth := (samplingWidth s)[k := sw],
                   accuracy := (accuracy s)[k := ac] \<rparr>))"

text \<open>\<^verbatim>\<open>setParamGauss\<close> (lines 606 to 633).\<close>

definition setParamGauss ::
  "env \<Rightarrow> int \<Rightarrow> string \<Rightarrow> double \<Rightarrow> double \<Rightarrow> double \<Rightarrow> double \<Rightarrow> double \<Rightarrow> mh \<Rightarrow> error + mh" where
  "setParamGauss e i name mean sigma start width acc s =
     (if check_fails e (0 \<le> i \<and> i < n_par s) then Inl (CheckFailed ''invalid index'')
      else if check_fails e (dgt sigma (Fin 0)) then Inl (CheckFailed ''invalid sigma'')
      else if \<not> (0 \<le> i \<and> i < n_par s) then Inl UndefinedBehaviour
      else if check_fails e (dge width (Fin 0)) then Inl (CheckFailed ''invalid sampling width'')
      else if check_fails e (dge acc (Fin 0)) then Inl (CheckFailed ''invalid accuracy'')
      else
        let k = nat i;
            st = (if deq start DBL_MAX then mean else start);
            sw = (if deq width (Fin 0) then ddiv sigma (Fin 100) else width);
            ac = (if deq acc (Fin 0) then ddiv sw (Fin 10) else acc)
        in Inr (s\<lparr> paramNames := (paramNames s)[k := name],
                   param1 := (param1 s)[k := mean],
                   param2 := (param2 s)[k := sigma],
                   priorMods := (priorMods s)[k := GAUSSIAN_PRIOR],
                   starting := (starting s)[k := st],
                   samplingWidth := (samplingWidth s)[k := sw],
                   accuracy := (accuracy s)[k := ac] \<rparr>))"

text \<open>
  \<^verbatim>\<open>specifyParameterBlocks\<close> (lines 635 to 648). The loop starts at index 1, and it
  is compiled only with \<^verbatim>\<open>CHECKS_ON\<close>.
\<close>

definition blocks_loop_body :: "env \<Rightarrow> int \<Rightarrow> int list \<Rightarrow> nat \<Rightarrow> unit \<Rightarrow> error + unit" where
  "blocks_loop_body e n bl i u =
     (if check_fails e (bl ! (i - 1) < bl ! i) then Inl (CheckFailed [])
      else if check_fails e (bl ! i \<le> n) then Inl (CheckFailed [])
      else Inr ())"

definition specifyParameterBlocks :: "env \<Rightarrow> int list \<Rightarrow> mh \<Rightarrow> error + mh" where
  "specifyParameterBlocks e bl s =
     (if check_fails e (bl \<noteq> []) then Inl (CheckFailed [])
      else case (if CHECKS_ON e then forE [1..<length bl] (blocks_loop_body e (n_par s) bl) ()
                 else Inr ()) of
             Inl x \<Rightarrow> Inl x
           | Inr u \<Rightarrow> Inr (s\<lparr> blocks := bl \<rparr>))"

definition useExternalPrior :: "(double list \<Rightarrow> double) \<Rightarrow> mh \<Rightarrow> mh" where
  "useExternalPrior prior s = s\<lparr> externalPrior := Some prior \<rparr>"

definition useExternalProposal :: "proposal \<Rightarrow> mh \<Rightarrow> mh" where
  "useExternalProposal prop s = s\<lparr> externalProposal := Some prop \<rparr>"

subsection \<open>The prior\<close>

definition uniformPrior :: "env \<Rightarrow> double \<Rightarrow> double \<Rightarrow> double \<Rightarrow> error + double" where
  "uniformPrior e mn mx x =
     (if check_fails e (dgt mx mn) then Inl (CheckFailed [])
      else if dge x mn \<and> dle x mx then Inr (ddiv (Fin 1) (dsub mx mn))
      else Inr (Fin 0))"

definition gaussPrior :: "env \<Rightarrow> double \<Rightarrow> double \<Rightarrow> double \<Rightarrow> error + double" where
  "gaussPrior e mean sigma x =
     (if check_fails e (dgt sigma (Fin 0)) then Inl (CheckFailed [])
      else
        let norm = ddiv (Fin 1) (dmul (dsqrt (dmul (Fin 2) (Fin pi))) sigma)
        in Inr (dmul norm
                 (dexp (ddiv (dmul (dneg (dsub x mean)) (dsub x mean))
                             (dmul (dmul (Fin 2) sigma) sigma)))))"

definition prior_factor :: "env \<Rightarrow> mh \<Rightarrow> nat \<Rightarrow> double \<Rightarrow> error + double" where
  "prior_factor e s i result =
     (case priorMods s ! i of
        UNIFORM_PRIOR \<Rightarrow>
          (case uniformPrior e (param1 s ! i) (param2 s ! i) (current s ! i) of
             Inl x \<Rightarrow> Inl x | Inr v \<Rightarrow> Inr (dmul result v))
      | GAUSSIAN_PRIOR \<Rightarrow>
          (case gaussPrior e (param1 s ! i) (param2 s ! i) (current s ! i) of
             Inl x \<Rightarrow> Inl x | Inr v \<Rightarrow> Inr (dmul result v))
      | PRIOR_MODE_MAX \<Rightarrow>
          (if check_fails e False then Inl (CheckFailed ''invalid prior mode'') else Inr result))"

definition calculatePrior :: "env \<Rightarrow> mh \<Rightarrow> error + double" where
  "calculatePrior e s =
     (case externalPrior s of
        Some prior \<Rightarrow> Inr (prior (current s))
      | None \<Rightarrow> forE [0..<nat (n_par s)] (prior_factor e s) (Fin 1))"

subsection \<open>The stop rule\<close>

text \<open>
  \<^verbatim>\<open>stop\<close> (lines 422 to 448). Its first line, \<^verbatim>\<open>check(iteration_ >= 0, "")\<close>, tests
  an unsigned number and never throws. \<open>stdMean\<close> is the value of the variable
  \<^verbatim>\<open>stdMean\<close> when line 443 compares it with \<^verbatim>\<open>accuracy_[i]\<close>.
\<close>

definition stdMean :: "mh \<Rightarrow> nat \<Rightarrow> double" where
  "stdMean s i =
     (let mean = ddiv (paramSum s ! i) (double_of_ulong (iteration s));
          meanSq = ddiv (paramSquaredSum s ! i) (double_of_ulong (iteration s));
          stdev = dsqrt (dsub meanSq (dmul mean mean));
          stdMean0 = ddiv stdev (dsqrt (double_of_ulong (iteration s)));
          cor = ddiv (dsub (ddiv (corSum s ! i) (double_of_ulong (iteration s))) (dmul mean mean))
                     (dmul stdev stdev)
      in if dlt cor (Fin 1) \<and> dgt cor (Fin (- 1))
         then dmul stdMean0 (dsqrt (ddiv (dadd (Fin 1) cor) (dsub (Fin 1) cor)))
         else stdMean0)"

fun stop_params :: "mh \<Rightarrow> nat list \<Rightarrow> bool" where
  "stop_params s [] = True"
| "stop_params s (i # js) =
     (if dgt (stdMean s i) (accuracy s ! i) then False else stop_params s js)"

definition stop :: "mh \<Rightarrow> bool" where
  "stop s =
     (if iteration s < 100 then False
      else if maxChainLength s \<le> iteration s then True
      else stop_params s [0..<nat (n_par s)])"

subsection \<open>Proposals, the chain file and the running sums\<close>

text \<open>\<^verbatim>\<open>generateNewPoint\<close> (lines 450 to 453); each call takes one draw.\<close>

definition generateNewPoint :: "env \<Rightarrow> mh \<Rightarrow> nat \<Rightarrow> nat \<Rightarrow> double" where
  "generateNewPoint e s draw j = dadd (current s ! j) (dmul (gauss e draw) (samplingWidth s ! j))"

text \<open>
  \<^verbatim>\<open>openOut\<close> (lines 455 to 473). Opening fails when the stream has a file open
  already or the file cannot be written; a successful \<^verbatim>\<open>open\<close> clears the flags.
  Without \<^verbatim>\<open>std::ios::app\<close> the file is truncated.
\<close>

definition openOut :: "bool \<Rightarrow> world \<times> mh \<Rightarrow> error + world \<times> mh" where
  "openOut app ws =
     (let w = fst ws; s = snd ws in
      if out_open s \<or> \<not> writable w ChainFile then Inl (CannotWrite ChainFile)
      else Inr (w\<lparr> chain_file :=
                     Some (if app then (case chain_file w of None \<Rightarrow> [] | Some txt \<Rightarrow> txt)
                           else []) \<rparr>,
                s\<lparr> out_open := True, out_fail := False \<rparr>))"

text \<open>\<^verbatim>\<open>closeOut\<close> (lines 475 to 478); closing a stream that is not open sets its fail flag.\<close>

definition closeOut :: "mh \<Rightarrow> mh" where
  "closeOut s = (if out_open s then s\<lparr> out_open := False \<rparr> else s\<lparr> out_fail := True \<rparr>)"

text \<open>
  \<^verbatim>\<open>writeChainElement\<close> (lines 480 to 487). \<open>chain_row\<close> is what the statements
  send to the stream: the integer 1, the member \<^verbatim>\<open>currentLike_\<close> and the \<^verbatim>\<open>n_\<close>
  entries of \<^verbatim>\<open>current_\<close>; \<open>row_text\<close> is the text of such a row, each number after
  the first preceded by three blanks and the line ended by \<^verbatim>\<open>std::endl\<close>.
\<close>

definition chain_row :: "mh \<Rightarrow> int \<times> double \<times> double list" where
  "chain_row s = (1, currentLike s, map (\<lambda>i. current s ! i) [0..<nat (n_par s)])"

definition row_text :: "env \<Rightarrow> int \<times> double \<times> double list \<Rightarrow> string" where
  "row_text e r =
     ''1'' @ ''   '' @ show_double e (fst (snd r))
       @ concat (map (\<lambda>x. ''   '' @ show_double e x) (snd (snd r))) @ [CHR 0x0A]"

definition writeChainElement :: "env \<Rightarrow> world \<times> mh \<Rightarrow> error + world \<times> mh" where
  "writeChainElement e ws =
     (let w = fst ws; s = snd ws in
      if check_fails e (\<not> out_fail s) then Inl (CheckFailed [])
      else if out_fail s then Inr (w, s)
      else if \<not> out_open s then Inr (w, s\<lparr> out_fail := True \<rparr>)
      else Inr (w\<lparr> chain_file :=
                     Some ((case chain_file w of None \<Rightarrow> [] | Some txt \<Rightarrow> txt)
                           @ row_text e (chain_row s)) \<rparr>, s))"

text \<open>\<^verbatim>\<open>update\<close> (lines 489 to 498).\<close>

definition update :: "mh \<Rightarrow> mh" where
  "update s =
     (let idx = [0..<nat (n_par s)] in
      s\<lparr> paramSum := map (\<lambda>i. dadd (paramSum s ! i) (current s ! i)) idx
                       @ drop (nat (n_par s)) (paramSum s),
         paramSquaredSum := map (\<lambda>i. dadd (paramSquaredSum s ! i) (dmul (current s ! i) (current s ! i))) idx
                       @ drop (nat (n_par s)) (paramSquaredSum s),
         corSum := map (\<lambda>i. dadd (corSum s ! i) (dmul (current s ! i) (prev s ! i))) idx
                       @ drop (nat (n_par s)) (corSum s),
         prev := current s \<rparr>)"

subsection \<open>The checkpoint file\<close>

text \<open>
  \<^verbatim>\<open>writeResumeInfo\<close> (lines 500 to 519): nothing happens when the file cannot be
  opened; otherwise the file is replaced by the two counters, the two scalars, the first
  \<^verbatim>\<open>n_\<close> entries of the five vectors and the code.
\<close>

definition resume_cells :: "mh \<Rightarrow> cell list" where
  "resume_cells s =
     [CULong (maxChainLength s), CULong (iteration s),
      CDouble (currentLike s), CDouble (currentPrior s)]
     @ map CDouble (take (nat (n_par s)) (current s))
     @ map CDouble (take (nat (n_par s)) (prev s))
     @ map CDouble (take (nat (n_par s)) (paramSum s))
     @ map CDouble (take (nat (n_par s)) (paramSquaredSum s))
     @ map CDouble (take (nat (n_par s)) (corSum s))
     @ [CInt (resumeCode s)]"

definition writeResumeInfo :: "world \<Rightarrow> mh \<Rightarrow> world" where
  "writeResumeInfo w s =
     (if \<not> writable w ResumeFile then w else w\<lparr> resume_file := Some (resume_cells s) \<rparr>)"

text \<open>
  Reading. The state of the input stream is the cells not yet read and whether the
  stream is still good. A read from a stream that is not good, a read at the end of the
  file, and a read that meets a cell of another kind leave the variable as it was and the
  stream failed. A read of an array fills the entries it can.
\<close>

fun read_ulong :: "cell list \<times> bool \<Rightarrow> 64 word \<Rightarrow> 64 word \<times> (cell list \<times> bool)" where
  "read_ulong (CULong v # cs, True) old = (v, (cs, True))"
| "read_ulong (cs, ok) old = (old, (cs, False))"

fun read_double :: "cell list \<times> bool \<Rightarrow> double \<Rightarrow> double \<times> (cell list \<times> bool)" where
  "read_double (CDouble v # cs, True) old = (v, (cs, True))"
| "read_double (cs, ok) old = (old, (cs, False))"

fun read_int :: "cell list \<times> bool \<Rightarrow> int \<Rightarrow> int \<times> (cell list \<times> bool)" where
  "read_int (CInt v # cs, True) old = (v, (cs, True))"
| "read_int (cs, ok) old = (old, (cs, False))"

fun read_cells :: "cell list \<times> bool \<Rightarrow> double list \<Rightarrow> double list \<times> (cell list \<times> bool)" where
  "read_cells st [] = ([], st)"
| "read_cells st (x # xs) =
     (let r = read_double st x; q = read_cells (snd r) xs in (fst r # fst q, snd q))"

definition read_doubles :: "nat \<Rightarrow> cell list \<times> bool \<Rightarrow> double list \<Rightarrow> double list \<times> (cell list \<times> bool)" where
  "read_doubles n st old = (let r = read_cells st (take n old) in (fst r @ drop n old, snd r))"

text \<open>\<^verbatim>\<open>readResumeInfo\<close> (lines 521 to 549).\<close>

definition readResumeInfo :: "world \<Rightarrow> mh \<Rightarrow> bool \<times> mh" where
  "readResumeInfo w s =
     (case resume_file w of
        None \<Rightarrow> (False, s)
      | Some cells \<Rightarrow>
          let n = nat (n_par s);
              r1 = read_ulong (cells, True) (maxChainLength s);
              r2 = read_ulong (snd r1) (iteration s);
              r3 = read_double (snd r2) (currentLike s);
              r4 = read_double (snd r3) (currentPrior s);
              r5 = read_doubles n (snd r4) (current s);
              r6 = read_doubles n (snd r5) (prev s);
              r7 = read_doubles n (snd r6) (paramSum s);
              r8 = read_doubles n (snd r7) (paramSquaredSum s);
              r9 = read_doubles n (snd r8) (corSum s);
              code = fst (read_int (snd r9) 0)
          in (code = resumeCode s,
              s\<lparr> maxChainLength := fst r1, iteration := fst r2,
                 currentLike := fst r3, currentPrior := fst r4,
                 current := fst r5, prev := fst r6, paramSum := fst r7,
                 paramSquaredSum := fst r8, corSum := fst r9 \<rparr>))"

subsection \<open>One block update\<close>

text \<open>
  The body of the loop over the blocks (lines 709 to 759), in two parts. \<open>block_trial\<close>
  is lines 709 to 743: the block is proposed, \<^verbatim>\<open>current_\<close> and \<^verbatim>\<open>currentLike_\<close> are
  overwritten, and the acceptance probability \<^verbatim>\<open>p\<close> is computed and clamped. The
  record \<open>trial\<close> holds the local variables that the second part reads. \<open>block_decide\<close>
  is lines 745 to 757: the draw \<^verbatim>\<open>q\<close> and the comparison \<^verbatim>\<open>q <= p\<close>.
\<close>

record trial =
  t_state :: mh
  t_currentOld :: "double list"
  t_oldLike :: double
  t_block :: "double list"
  t_newPrior :: double
  t_p :: double

text \<open>The indices \<^verbatim>\<open>blockBegin <= j < blockEnd\<close> are indices of the vectors.\<close>

definition block_range_ok :: "mh \<Rightarrow> int \<Rightarrow> int \<Rightarrow> bool" where
  "block_range_ok s blockBegin blockEnd =
     (blockEnd \<le> blockBegin \<or> (0 \<le> blockBegin \<and> blockEnd \<le> n_par s))"

definition propose_block :: "env \<Rightarrow> mh \<Rightarrow> nat \<Rightarrow> int \<Rightarrow> int \<Rightarrow> error + double list \<times> mh" where
  "propose_block e s i blockBegin blockEnd =
     (let len = nat (blockEnd - blockBegin) in
      case externalProposal s of
        Some prop \<Rightarrow>
          (let r = generate prop (proposal_calls s) (current s) i (replicate len (Fin 0)) in
           if length r \<noteq> len then Inl UndefinedBehaviour
           else Inr (r, s\<lparr> proposal_calls := Suc (proposal_calls s) \<rparr>))
      | None \<Rightarrow>
          (if \<not> block_range_ok s blockBegin blockEnd then Inl UndefinedBehaviour
           else Inr (map (\<lambda>k. generateNewPoint e s (generator s + k) (nat blockBegin + k)) [0..<len],
                     s\<lparr> generator := generator s + len \<rparr>)))"

definition overwrite_block :: "double list \<Rightarrow> int \<Rightarrow> double list \<Rightarrow> double list" where
  "overwrite_block cur blockBegin block =
     fold (\<lambda>k c. c[nat blockBegin + k := block ! k]) [0..<length block] cur"

definition acceptance :: "mh \<Rightarrow> nat \<Rightarrow> int \<Rightarrow> int \<Rightarrow> double list \<Rightarrow> double list \<Rightarrow> double \<Rightarrow> double \<Rightarrow> double" where
  "acceptance s i blockBegin blockEnd currentOld block oldLike newPrior =
     (let p0 = ddiv newPrior (currentPrior s);
          deltaLike = dsub (currentLike s) oldLike;
          p1 = dmul p0 (dexp (ddiv (dneg deltaLike) (Fin 2)));
          p2 = (case externalProposal s of
                  None \<Rightarrow> p1
                | Some prop \<Rightarrow>
                    if isSymmetric prop i then p1
                    else
                      let oldBlock = map (\<lambda>k. currentOld ! (nat blockBegin + k))
                                         [0..<nat (blockEnd - blockBegin)]
                      in ddiv (dmul p1 (calculate prop (current s) oldBlock i))
                              (calculate prop currentOld block i))
      in if dgt p2 (Fin 1) then Fin 1 else p2)"

definition block_trial :: "env \<Rightarrow> nat \<Rightarrow> int \<Rightarrow> mh \<Rightarrow> error + trial" where
  "block_trial e i blockBegin s =
     (let blockEnd = blocks s ! i in
      if blockEnd - blockBegin < 0 then Inl LengthError
      else case propose_block e s i blockBegin blockEnd of
        Inl x \<Rightarrow> Inl x
      | Inr bs \<Rightarrow>
          if \<not> block_range_ok s blockBegin blockEnd then Inl UndefinedBehaviour
          else
            let block = fst bs; s1 = snd bs;
                currentOld = current s1;
                s2 = s1\<lparr> current := overwrite_block (current s1) blockBegin block \<rparr>;
                oldLike = currentLike s2;
                s3 = s2\<lparr> currentLike := like s2 (current s2) \<rparr>
            in (case calculatePrior e s3 of
                  Inl x \<Rightarrow> Inl x
                | Inr newPrior \<Rightarrow>
                    Inr \<lparr> t_state = s3, t_currentOld = currentOld, t_oldLike = oldLike,
                          t_block = block, t_newPrior = newPrior,
                          t_p = acceptance s3 i blockBegin blockEnd currentOld block oldLike newPrior \<rparr>))"

text \<open>The draw: \<^verbatim>\<open>q = ((double) r) / RAND_MAX\<close> for the next result \<^verbatim>\<open>r\<close> of \<^verbatim>\<open>std::rand()\<close>.\<close>

definition draw_q :: "env \<Rightarrow> world \<Rightarrow> double" where
  "draw_q e w = ddiv (Fin (real (rand e (rand_calls w)))) (Fin (real (RAND_MAX e)))"

definition block_decide ::
  "env \<Rightarrow> nat \<Rightarrow> trial \<Rightarrow> world \<Rightarrow> 64 word list \<Rightarrow> world \<times> mh \<times> 64 word list" where
  "block_decide e i t w accepted =
     (let q = draw_q e w; w' = w\<lparr> rand_calls := Suc (rand_calls w) \<rparr> in
      if dle q (t_p t)
      then (w', (t_state t)\<lparr> currentPrior := t_newPrior t \<rparr>, accepted[i := accepted ! i + 1])
      else (w', (t_state t)\<lparr> current := t_currentOld t, currentLike := t_oldLike t \<rparr>, accepted))"

text \<open>The loop variable \<^verbatim>\<open>blockBegin\<close> is the first component of the loop's state.\<close>

definition block_step ::
  "env \<Rightarrow> nat \<Rightarrow> int \<times> world \<times> mh \<times> 64 word list \<Rightarrow> error + int \<times> world \<times> mh \<times> 64 word list" where
  "block_step e i st =
     (let blockBegin = fst st; w = fst (snd st); s = fst (snd (snd st));
          accepted = snd (snd (snd st))
      in case block_trial e i blockBegin s of
           Inl x \<Rightarrow> Inl x
         | Inr t \<Rightarrow> Inr (blocks s ! i, block_decide e i t w accepted))"

subsection \<open>One sweep, and the run\<close>

text \<open>The body of the \<^verbatim>\<open>while\<close> loop (lines 706 to 779).\<close>

definition sweep ::
  "env \<Rightarrow> bool \<Rightarrow> world \<times> mh \<times> 64 word list \<Rightarrow> error + world \<times> mh \<times> 64 word list" where
  "sweep e writeResumeInformation st =
     (let w = fst st; s = fst (snd st); accepted = snd (snd st) in
      case forE [0..<length (blocks s)] (block_step e) (0, w, s, accepted) of
        Inl x \<Rightarrow> Inl x
      | Inr st1 \<Rightarrow>
          (case writeChainElement e (fst (snd st1), fst (snd (snd st1))) of
             Inl x \<Rightarrow> Inl x
           | Inr ws2 \<Rightarrow>
               let accepted1 = snd (snd (snd st1));
                   s3 = update ((snd ws2)\<lparr> iteration := iteration (snd ws2) + 1 \<rparr>);
                   w3 = (if writeResumeInformation then writeResumeInfo (fst ws2) s3 else fst ws2)
               in if iteration s3 mod 1000 = 0
                  then (case openOut True (w3, closeOut s3) of
                          Inl x \<Rightarrow> Inl x
                        | Inr ws4 \<Rightarrow> Inr (fst ws4, snd ws4, accepted1))
                  else Inr (w3, s3, accepted1)))"

text \<open>
  The start of \<^verbatim>\<open>run\<close> (lines 653 to 703): the two checks, the file of parameter
  names, then either the checkpoint or a fresh start, and the counters of accepted
  proposals.
\<close>

definition paramnames_text :: "mh \<Rightarrow> string" where
  "paramnames_text s =
     concat (map (\<lambda>i. paramNames s ! i @ [CHR 0x09] @ paramNames s ! i @ [CHR 0x0A])
                 [0..<nat (n_par s)])"

definition fresh_start :: "env \<Rightarrow> 64 word \<Rightarrow> world \<times> mh \<Rightarrow> error + world \<times> mh" where
  "fresh_start e maxCL ws =
     (let w = fst ws; s = snd ws; n = nat (n_par s);
          s1 = s\<lparr> maxChainLength := maxCL, current := starting s \<rparr>;
          s2 = s1\<lparr> currentLike := like s1 (current s1) \<rparr>
      in case calculatePrior e s2 of
           Inl x \<Rightarrow> Inl x
         | Inr pr \<Rightarrow>
             openOut False
               (w, s2\<lparr> currentPrior := pr, prev := current s2, iteration := 0,
                       paramSum := replicate n (Fin 0) @ drop n (paramSum s2),
                       paramSquaredSum := replicate n (Fin 0) @ drop n (paramSquaredSum s2),
                       corSum := replicate n (Fin 0) @ drop n (corSum s2) \<rparr>))"

definition run_start ::
  "env \<Rightarrow> 64 word \<Rightarrow> world \<times> mh \<Rightarrow> error + world \<times> mh \<times> 64 word list" where
  "run_start e maxCL ws =
     (let w = fst ws; s = snd ws in
      if check_fails e (0 < maxCL) then Inl (CheckFailed ''invalid maxChainLength'')
      else if check_fails e (blocks s \<noteq> []) then Inl (CheckFailed [])
      else if \<not> writable w ParamNamesFile then Inl (CannotWrite ParamNamesFile)
      else
        let w1 = w\<lparr> paramnames_file := Some (paramnames_text s) \<rparr>;
            r = readResumeInfo w1 s
        in case (if fst r then openOut True (w1, snd r) else fresh_start e maxCL (w1, snd r)) of
             Inl x \<Rightarrow> Inl x
           | Inr ws2 \<Rightarrow> Inr (fst ws2, snd ws2, replicate (length (blocks (snd ws2))) 0))"

subsection \<open>The loop of the run\<close>

text \<open>
  The \<^verbatim>\<open>while(!stop())\<close> loop of \<^verbatim>\<open>run\<close> (line 704). Every sweep adds one to
  \<^verbatim>\<open>iteration_\<close>, and \<open>stop\<close> holds at the largest \<^verbatim>\<open>unsigned long\<close>, so the
  counter never wraps around and the loop ends.
\<close>

lemma forE_inv:
  assumes "forE js f a = Inr b" and "P a"
    and "\<And>i x y. f i x = Inr y \<Longrightarrow> P x \<Longrightarrow> P y"
  shows "P b"
  using assms(1,2)
proof (induction js arbitrary: a)
  case Nil
  then show ?case by simp
next
  case (Cons i js)
  then show ?case by (auto split: sum.splits intro: assms(3))
qed

text \<open>
  The members that a block update leaves alone: two states agree on them when their
  \<open>block_frame\<close> is the same.
\<close>

definition block_frame :: "mh \<Rightarrow> mh" where
  "block_frame s = s\<lparr> current := [], currentLike := NaN, currentPrior := NaN,
                       generator := 0, proposal_calls := 0 \<rparr>"

lemma propose_block_frame:
  "propose_block e s i bb be = Inr bs \<Longrightarrow> block_frame (snd bs) = block_frame s"
  by (auto simp: propose_block_def block_frame_def Let_def split: option.splits if_splits)

lemma block_trial_frame:
  "block_trial e i bb s = Inr t \<Longrightarrow> block_frame (t_state t) = block_frame s"
  by (auto simp: block_trial_def block_frame_def Let_def propose_block_def split: option.splits if_splits sum.splits)

lemma block_step_frame:
  "block_step e i st = Inr st' \<Longrightarrow> block_frame (fst (snd (snd st'))) = block_frame (fst (snd (snd st)))"
  by (auto simp: block_step_def block_decide_def Let_def split: sum.splits if_splits dest!: block_trial_frame)
     (auto simp: block_frame_def)


lemma blocks_loop_frame:
  "forE js (block_step e) st = Inr st' \<Longrightarrow>
   block_frame (fst (snd (snd st'))) = block_frame (fst (snd (snd st)))"
  by (rule forE_inv [where P = "\<lambda>x. block_frame (fst (snd (snd x))) = block_frame (fst (snd (snd st)))"])
     (auto dest: block_step_frame)

lemma block_frame_iteration: "block_frame s' = block_frame s \<Longrightarrow> iteration s' = iteration s"
proof -
  assume a: "block_frame s' = block_frame s"
  have "iteration s' = iteration (block_frame s')" by (simp add: block_frame_def)
  also have "\<dots> = iteration (block_frame s)" by (simp add: a)
  also have "\<dots> = iteration s" by (simp add: block_frame_def)
  finally show ?thesis .
qed

lemma writeChainElement_state:
  "writeChainElement e ws = Inr ws' \<Longrightarrow> snd ws' = snd ws \<or> snd ws' = (snd ws)\<lparr> out_fail := True \<rparr>"
  by (auto simp: writeChainElement_def Let_def split: if_splits)

lemma openOut_state:
  "openOut app ws = Inr ws' \<Longrightarrow> snd ws' = (snd ws)\<lparr> out_open := True, out_fail := False \<rparr>"
  by (auto simp: openOut_def Let_def split: if_splits)

lemma iteration_update [simp]: "iteration (update s) = iteration s"
  by (simp add: update_def Let_def)

lemma iteration_closeOut [simp]: "iteration (closeOut s) = iteration s"
  by (simp add: closeOut_def)

lemma sweep_iteration:
  assumes "sweep e wri st = Inr st'"
  shows "iteration (fst (snd st')) = iteration (fst (snd st)) + 1"
proof -
  from assms obtain st1 ws2 where
    l: "forE [0..<length (blocks (fst (snd st)))] (block_step e) (0, fst st, fst (snd st), snd (snd st)) = Inr st1"
    and c: "writeChainElement e (fst (snd st1), fst (snd (snd st1))) = Inr ws2"
    by (auto simp: sweep_def Let_def split: sum.splits)
  have i1: "iteration (fst (snd (snd st1))) = iteration (fst (snd st))"
    using blocks_loop_frame [OF l] by (auto dest: block_frame_iteration)
  have i2: "iteration (snd ws2) = iteration (fst (snd st))"
    using writeChainElement_state [OF c] i1 by auto
  show ?thesis
    using assms l c i2
    by (auto simp: sweep_def Let_def split: sum.splits if_splits dest!: openOut_state)
qed

lemma not_stop_iteration: "\<not> stop s \<Longrightarrow> unat (iteration s) < 2 ^ 64 - 1"
proof -
  assume ns: "\<not> stop s"
  have m: "unat (maxChainLength s) < 2 ^ 64" using unsigned_less [of "maxChainLength s"] by simp
  from ns have "iteration s < 100 \<or> iteration s < maxChainLength s"
    by (auto simp: stop_def split: if_splits)
  then show ?thesis
  proof
    assume "iteration s < 100"
    then have "unat (iteration s) < 100" by (simp add: word_less_nat_alt)
    then show ?thesis by simp
  next
    assume "iteration s < maxChainLength s"
    then have "unat (iteration s) < unat (maxChainLength s)" by (simp add: word_less_nat_alt)
    with m show ?thesis by simp
  qed
qed

function run_loop ::
  "env \<Rightarrow> bool \<Rightarrow> world \<times> mh \<times> 64 word list \<Rightarrow> error + world \<times> mh \<times> 64 word list" where
  "run_loop e writeResumeInformation st =
     (if stop (fst (snd st)) then Inr st
      else case sweep e writeResumeInformation st of
             Inl x \<Rightarrow> Inl x
           | Inr st' \<Rightarrow> run_loop e writeResumeInformation st')"
  by pat_completeness auto
termination
proof (relation "measure (\<lambda>(e, b, st). 2 ^ 64 - unat (iteration (fst (snd st))))")
  show "wf (measure (\<lambda>(e, b, st). 2 ^ 64 - unat (iteration (fst (snd st)))))" by simp
next
  fix e b st x2
  assume ns: "\<not> stop (fst (snd st))" and sw: "sweep e b st = Inr x2"
  have lt: "unat (iteration (fst (snd st))) < 2 ^ 64 - 1" using not_stop_iteration [OF ns] .
  have "iteration (fst (snd x2)) = iteration (fst (snd st)) + 1" using sweep_iteration [OF sw] .
  then have "unat (iteration (fst (snd x2))) = unat (iteration (fst (snd st))) + 1"
    using lt by (simp add: unat_word_ariths)
  with lt show "((e, b, x2), (e, b, st)) \<in> measure (\<lambda>(e, b, st). 2 ^ 64 - unat (iteration (fst (snd st))))"
    by simp
qed

declare run_loop.simps [simp del]

text \<open>\<^verbatim>\<open>run\<close> (lines 650 to 797); the messages on the screen are left out.\<close>

definition run ::
  "env \<Rightarrow> 64 word \<Rightarrow> bool \<Rightarrow> world \<times> mh \<Rightarrow> error + world \<times> mh \<times> 64 word list" where
  "run e maxCL writeResumeInformation ws =
     (case run_start e maxCL ws of
        Inl x \<Rightarrow> Inl x
      | Inr st \<Rightarrow>
          (case run_loop e writeResumeInformation st of
             Inl x \<Rightarrow> Inl x
           | Inr st' \<Rightarrow> Inr (fst st', closeOut (fst (snd st')), snd (snd st'))))"

section \<open>Example configurations\<close>

text \<open>
  Concrete collaborators for the closed examples below: a build with \<^verbatim>\<open>CHECKS_ON\<close>,
  a generator that always draws 0, a \<^verbatim>\<open>std::rand\<close> that always returns 0, a
  constant likelihood, and a printer that tells the numbers of the examples apart.
\<close>

definition ex_show :: "double \<Rightarrow> string" where
  "ex_show d =
     (case d of
        Fin x \<Rightarrow> (if x = 0 then ''0'' else if x = 1 then ''1'' else if x = - 2 then ''-2'' else ''x'')
      | PInf \<Rightarrow> ''inf'' | NInf \<Rightarrow> ''-inf'' | NaN \<Rightarrow> ''nan'')"

definition ex_env :: env where
  "ex_env = \<lparr> CHECKS_ON = True, gauss = (\<lambda>k. Fin 0), rand = (\<lambda>k. 0),
              RAND_MAX = 2147483647, show_double = ex_show \<rparr>"

definition ex_like :: "double list \<Rightarrow> double" where
  "ex_like xs = Fin 1"

definition ex_junk :: "64 word \<times> 64 word \<times> double \<times> double" where
  "ex_junk = (0, 0, Fin 0, Fin 0)"

text \<open>
  An engine with one parameter, uniform on \<open>[0, 1]\<close>, with the default starting
  value, sampling width and accuracy, as the constructor and \<^verbatim>\<open>setParam\<close> build it.
\<close>

definition ex_mh1 :: mh where
  "ex_mh1 = \<lparr>
     n_par = 1, like = ex_like, paramNames = [''x''],
     param1 = [Fin 0], param2 = [Fin 1], starting = [Fin (1 / 2)],
     samplingWidth = [Fin (1 / 100)], accuracy = [Fin (1 / 1000)],
     paramSum = [Fin 0], paramSquaredSum = [Fin 0], corSum = [Fin 0],
     priorMods = [UNIFORM_PRIOR], externalPrior = None, externalProposal = None,
     blocks = [1], generator = 0, proposal_calls = 0,
     prev = [Fin 0], current = [Fin 0],
     maxChainLength = 0, iteration = 0, currentLike = Fin 0, currentPrior = Fin 0,
     resumeCode = 123456, out_open = False, out_fail = False \<rparr>"

lemma ex_mh1_built:
  "\<exists>s0. MetropolisHastings ex_env 1 ex_like ex_junk = Inr s0
      \<and> setParam ex_env 0 ''x'' (Fin 0) (Fin 1) DBL_MAX (Fin 0) (Fin 0) s0 = Inr ex_mh1"
  by (simp add: MetropolisHastings_def setParam_def ex_env_def ex_junk_def ex_mh1_def
      check_fails_def dgt_def dge_def deq_def DBL_MAX_def dsub_def Let_def)

section \<open>Block partitions\<close>













section \<open>The stop rule\<close>

text \<open>
  The claim's formulas, written from its words: the mean, the standard deviation, the
  lag-1 autocorrelation \<open>rho\<close> and the standard error of the mean, inflated when
  \<open>|rho| < 1\<close>.
\<close>

fun dabs :: "double \<Rightarrow> double" where
  "dabs (Fin x) = Fin \<bar>x\<bar>"
| "dabs PInf = PInf"
| "dabs NInf = PInf"
| "dabs NaN = NaN"

definition spec_mean :: "mh \<Rightarrow> nat \<Rightarrow> double" where
  "spec_mean s i = ddiv (paramSum s ! i) (double_of_ulong (iteration s))"

definition spec_stdev :: "mh \<Rightarrow> nat \<Rightarrow> double" where
  "spec_stdev s i =
     dsqrt (dsub (ddiv (paramSquaredSum s ! i) (double_of_ulong (iteration s)))
                 (dmul (spec_mean s i) (spec_mean s i)))"

definition spec_rho :: "mh \<Rightarrow> nat \<Rightarrow> double" where
  "spec_rho s i =
     ddiv (dsub (ddiv (corSum s ! i) (double_of_ulong (iteration s)))
                (dmul (spec_mean s i) (spec_mean s i)))
          (dmul (spec_stdev s i) (spec_stdev s i))"

definition spec_std_error :: "mh \<Rightarrow> nat \<Rightarrow> double" where
  "spec_std_error s i =
     (let se = ddiv (spec_stdev s i) (dsqrt (double_of_ulong (iteration s))) in
      if dlt (dabs (spec_rho s i)) (Fin 1)
      then dmul se (dsqrt (ddiv (dadd (Fin 1) (spec_rho s i)) (dsub (Fin 1) (spec_rho s i))))
      else se)"

lemma dlt_NaN_right [simp]: "dlt x NaN = False"
  by (cases x) auto


lemma dabs_less_one: "dlt (dabs c) (Fin 1) = (dlt c (Fin 1) \<and> dgt c (Fin (- 1)))"
  by (cases c) (auto simp: dgt_def)

lemma spec_std_error_stdMean: "spec_std_error s i = stdMean s i"
  by (simp add: spec_std_error_def stdMean_def spec_rho_def spec_stdev_def spec_mean_def
      dabs_less_one Let_def)

lemma stop_params_all:
  "stop_params s js = (\<forall>i\<in>set js. \<not> dgt (stdMean s i) (accuracy s ! i))"
  by (induction js) auto

lemma stop_params_upt:
  "stop_params s [0..<n] = (\<forall>i<n. \<not> dgt (spec_std_error s i) (accuracy s ! i))"
  by (auto simp: stop_params_all spec_std_error_stdMean)

lemma not_dgt_dle: "x \<noteq> NaN \<Longrightarrow> a \<noteq> NaN \<Longrightarrow> (\<not> dgt x a) = dle x a"
  by (cases x; cases a) (auto simp: dgt_def)

text \<open>
  Claim C3, as amended. \<open>stop\<close> returns false whenever \<open>iteration < 100\<close>. For
  \<open>100 \<le> iteration < maxChainLength\<close> it returns true if and only if for no parameter
  the inflated standard error is greater than the configured accuracy, that is, the
  comparison \<^verbatim>\<open>stdMean > accuracy_[i]\<close> of line 443 is false for every parameter. When
  no standard error and no accuracy is NaN this is the claim's \<open>\<le>\<close>; a NaN standard error
  passes the test.
\<close>

theorem stop_rule:
  "(iteration s < 100 \<longrightarrow> \<not> stop s)
   \<and> (100 \<le> iteration s \<and> iteration s < maxChainLength s \<longrightarrow>
        stop s = (\<forall>i<nat (n_par s). \<not> dgt (spec_std_error s i) (accuracy s ! i)))
   \<and> (100 \<le> iteration s \<and> iteration s < maxChainLength s
        \<and> (\<forall>i<nat (n_par s). spec_std_error s i \<noteq> NaN \<and> accuracy s ! i \<noteq> NaN) \<longrightarrow>
        stop s = (\<forall>i<nat (n_par s). dle (spec_std_error s i) (accuracy s ! i)))"
proof (intro conjI impI)
  assume "iteration s < 100"
  then show "\<not> stop s" by (simp add: stop_def)
next
  assume a: "100 \<le> iteration s \<and> iteration s < maxChainLength s"
  then have "stop s = stop_params s [0..<nat (n_par s)]"
    by (auto simp: stop_def)
  then show "stop s = (\<forall>i<nat (n_par s). \<not> dgt (spec_std_error s i) (accuracy s ! i))"
    by (simp only: stop_params_upt)
next
  assume a: "100 \<le> iteration s \<and> iteration s < maxChainLength s
        \<and> (\<forall>i<nat (n_par s). spec_std_error s i \<noteq> NaN \<and> accuracy s ! i \<noteq> NaN)"
  then have "stop s = stop_params s [0..<nat (n_par s)]"
    by (auto simp: stop_def)
  then have "stop s = (\<forall>i<nat (n_par s). \<not> dgt (spec_std_error s i) (accuracy s ! i))"
    by (simp only: stop_params_upt)
  also have "\<dots> = (\<forall>i<nat (n_par s). dle (spec_std_error s i) (accuracy s ! i))"
    using a by (auto simp: not_dgt_dle)
  finally show "stop s = (\<forall>i<nat (n_par s). dle (spec_std_error s i) (accuracy s ! i))" .
qed

text \<open>
  Two states after 100 sweeps, both with \<open>maxChainLength = 1000\<close>: one whose sums are all
  zero, and one whose sum of squares is negative, with a checkpoint file that holds it.
\<close>

definition ex_converged :: mh where
  "ex_converged = ex_mh1\<lparr> maxChainLength := 1000, iteration := 100 \<rparr>"

definition ex_negative_variance :: mh where
  "ex_negative_variance =
     ex_mh1\<lparr> maxChainLength := 1000, iteration := 100, paramSquaredSum := [Fin (- 100)] \<rparr>"

lemma ex_converged_std_error: "spec_std_error ex_converged 0 = Fin 0"
  by (simp add: spec_std_error_def spec_rho_def spec_stdev_def spec_mean_def ex_converged_def
      ex_mh1_def double_of_ulong_def dsub_def Let_def)

lemma ex_negative_variance_std_error: "spec_std_error ex_negative_variance 0 = NaN"
  by (simp add: spec_std_error_def spec_rho_def spec_stdev_def spec_mean_def
      ex_negative_variance_def ex_mh1_def double_of_ulong_def dsub_def Let_def)

definition ex_negative_file :: "cell list" where
  "ex_negative_file =
     [CULong 1000, CULong 100, CDouble (Fin 0), CDouble (Fin 0), CDouble (Fin 0),
      CDouble (Fin 0), CDouble (Fin 0), CDouble (Fin (- 100)), CDouble (Fin 0), CInt 123456]"

lemma ex_negative_variance_read:
  "readResumeInfo \<lparr> paramnames_file = None, chain_file = None,
                    resume_file = Some ex_negative_file, writable = (\<lambda>f. True),
                    rand_calls = 0 \<rparr> ex_mh1
   = (True, ex_negative_variance)"
  by (simp add: readResumeInfo_def ex_negative_file_def read_doubles_def Let_def
      ex_negative_variance_def ex_mh1_def)

text \<open>
  The theorem at the fresh state (no stop before iteration 100) and at the state with zero
  sums (standard error 0, within the accuracy \<open>1/1000\<close>: stop).
\<close>

theorem stop_rule_witness:
  "iteration ex_mh1 < 100 \<and> \<not> stop ex_mh1
   \<and> 100 \<le> iteration ex_converged \<and> iteration ex_converged < maxChainLength ex_converged
   \<and> spec_std_error ex_converged 0 \<noteq> NaN \<and> accuracy ex_converged ! 0 \<noteq> NaN
   \<and> dle (spec_std_error ex_converged 0) (accuracy ex_converged ! 0)
   \<and> stop ex_converged"
proof -
  have a: "iteration ex_mh1 < 100" by (simp add: ex_mh1_def)
  have b: "100 \<le> iteration ex_converged \<and> iteration ex_converged < maxChainLength ex_converged"
    by (simp add: ex_converged_def)
  have n: "nat (n_par ex_converged) = 1" by (simp add: ex_converged_def ex_mh1_def)
  have c: "spec_std_error ex_converged 0 \<noteq> NaN \<and> accuracy ex_converged ! 0 \<noteq> NaN
           \<and> dle (spec_std_error ex_converged 0) (accuracy ex_converged ! 0)"
    by (simp add: ex_converged_std_error) (simp add: ex_converged_def ex_mh1_def)
  have "\<not> stop ex_mh1" using stop_rule [of ex_mh1] a by blast
  moreover have "stop ex_converged"
  proof -
    have h: "\<forall>i<nat (n_par ex_converged). spec_std_error ex_converged i \<noteq> NaN \<and> accuracy ex_converged ! i \<noteq> NaN"
      using c n by simp
    from stop_rule [of ex_converged] b h
    have "stop ex_converged = (\<forall>i<nat (n_par ex_converged). dle (spec_std_error ex_converged i) (accuracy ex_converged ! i))"
      by blast
    then show ?thesis using c n by simp
  qed
  ultimately show ?thesis using a b c by simp
qed

text \<open>
  Claim C3 as stated fails where the standard error is NaN. \<^verbatim>\<open>readResumeInfo\<close> loads
  the file \<open>ex_negative_file\<close>, whose code is right, into \<open>ex_mh1\<close>; in the state it
  leaves the variance is negative, \<^verbatim>\<open>std::sqrt\<close> gives NaN, the comparison of line 443
  is false, and \<open>stop\<close> returns true although the standard error is not \<open>\<le>\<close> the accuracy.
\<close>

theorem stop_rule_counterexample:
  "readResumeInfo \<lparr> paramnames_file = None, chain_file = None,
                    resume_file = Some ex_negative_file, writable = (\<lambda>f. True),
                    rand_calls = 0 \<rparr> ex_mh1
     = (True, ex_negative_variance)
   \<and> n_par ex_negative_variance = 1
   \<and> 100 \<le> iteration ex_negative_variance
   \<and> iteration ex_negative_variance < maxChainLength ex_negative_variance
   \<and> stop ex_negative_variance
   \<and> \<not> dle (spec_std_error ex_negative_variance 0) (accuracy ex_negative_variance ! 0)"
proof -
  have nan: "stdMean ex_negative_variance 0 = NaN"
    using ex_negative_variance_std_error by (simp add: spec_std_error_stdMean)
  have sp: "stop_params ex_negative_variance [0]"
    by (simp add: nan dgt_def)
  have idx: "[0..<nat (n_par ex_negative_variance)] = [0]"
    by (simp add: ex_negative_variance_def ex_mh1_def)
  have it: "iteration ex_negative_variance = 100" "maxChainLength ex_negative_variance = 1000"
    by (simp_all add: ex_negative_variance_def)
  have st: "stop ex_negative_variance"
    unfolding stop_def idx it using sp by simp
  have n: "n_par ex_negative_variance = 1"
    by (simp add: ex_negative_variance_def ex_mh1_def)
  show ?thesis
    using st n it ex_negative_variance_read by (simp add: ex_negative_variance_std_error)
qed

section \<open>Reading a checkpoint\<close>

text \<open>The vectors have \<^verbatim>\<open>n_\<close> entries and the code is 123456, as the constructor leaves them.\<close>

definition wf_mh :: "mh \<Rightarrow> bool" where
  "wf_mh s =
     (let n = nat (n_par s) in
      length (paramNames s) = n \<and> length (param1 s) = n \<and> length (param2 s) = n
      \<and> length (starting s) = n \<and> length (samplingWidth s) = n \<and> length (accuracy s) = n
      \<and> length (paramSum s) = n \<and> length (paramSquaredSum s) = n \<and> length (corSum s) = n
      \<and> length (priorMods s) = n \<and> length (prev s) = n \<and> length (current s) = n
      \<and> resumeCode s = 123456)"

lemma read_ulong_good:
  "snd (snd (read_ulong st old)) \<Longrightarrow> \<exists>v cs. st = (CULong v # cs, True) \<and> read_ulong st old = (v, (cs, True))"
  by (induction st old rule: read_ulong.induct) auto

lemma read_double_good:
  "snd (snd (read_double st old)) \<Longrightarrow> \<exists>v cs. st = (CDouble v # cs, True) \<and> read_double st old = (v, (cs, True))"
  by (induction st old rule: read_double.induct) auto

lemma read_int_good:
  "fst (read_int st 0) \<noteq> 0 \<Longrightarrow> \<exists>v cs. st = (CInt v # cs, True) \<and> read_int st 0 = (v, (cs, True))"
  by (induction st "0::int" rule: read_int.induct) auto

lemma read_cells_length: "length (fst (read_cells st xs)) = length xs"
  by (induction xs arbitrary: st) (auto simp: Let_def)

lemma read_cells_good:
  "snd (snd (read_cells st xs)) \<Longrightarrow>
   \<exists>vs cs. length vs = length xs \<and> st = (map CDouble vs @ cs, True) \<and> read_cells st xs = (vs, (cs, True))"
proof (induction xs arbitrary: st)
  case Nil
  then show ?case by (cases st) auto
next
  case (Cons x xs)
  let ?r = "read_double st x"
  from Cons.prems have g: "snd (snd (read_cells (snd ?r) xs))" by (simp add: Let_def)
  from Cons.IH [OF g] obtain vs cs where vs: "length vs = length xs"
    and s1: "snd ?r = (map CDouble vs @ cs, True)" and r1: "read_cells (snd ?r) xs = (vs, (cs, True))"
    by blast
  from s1 have "snd (snd ?r)" by simp
  from read_double_good [OF this] obtain v cs' where st: "st = (CDouble v # cs', True)"
    and rd: "?r = (v, (cs', True))" by blast
  from rd s1 have cs': "cs' = map CDouble vs @ cs" by simp
  have "read_cells st (x # xs) = (v # vs, (cs, True))"
    using rd r1 by (simp add: Let_def)
  with vs st cs' show ?case
    by (intro exI [of _ "v # vs"] exI [of _ cs]) simp
qed

lemma read_doubles_good:
  assumes "snd (snd (read_doubles n st old))" and "length old = n"
  shows "\<exists>vs cs. length vs = n \<and> st = (map CDouble vs @ cs, True) \<and> read_doubles n st old = (vs, (cs, True))"
proof -
  from assms have "snd (snd (read_cells st old))" by (simp add: read_doubles_def Let_def)
  from read_cells_good [OF this] assms(2) show ?thesis
    by (auto simp: read_doubles_def Let_def)
qed

lemma read_doubles_length:
  "length (fst (read_doubles n st old)) = length old"
  by (simp add: read_doubles_def Let_def read_cells_length)

lemma read_cells_written:
  "length old = length vs \<Longrightarrow> read_cells (map CDouble vs @ cs, True) old = (vs, (cs, True))"
proof (induction old arbitrary: vs)
  case Nil
  then show ?case by simp
next
  case (Cons x old)
  then obtain v vs' where vs: "vs = v # vs'" and l: "length old = length vs'"
    by (cases vs) auto
  show ?case using Cons.IH [OF l] by (simp add: vs Let_def)
qed

lemma read_doubles_written:
  "length old = n \<Longrightarrow> length vs = n \<Longrightarrow>
   read_doubles n (map CDouble vs @ cs, True) old = (vs, (cs, True))"
  by (simp add: read_doubles_def Let_def read_cells_written)

lemma read_ulong_failed [simp]: "snd (snd (read_ulong (cs, False) old)) = False"
  by simp

lemma read_double_failed [simp]: "snd (snd (read_double (cs, False) old)) = False"
  by simp

lemma read_cells_failed: "\<not> snd st \<Longrightarrow> \<not> snd (snd (read_cells st xs))"
proof (induction xs arbitrary: st)
  case Nil
  then show ?case by simp
next
  case (Cons x xs)
  obtain cs where st: "st = (cs, False)" using Cons.prems by (cases st) auto
  have "\<not> snd (snd (read_double st x))" by (simp add: st)
  from Cons.IH [OF this] show ?case by (simp add: Let_def)
qed

lemma read_doubles_failed: "\<not> snd st \<Longrightarrow> \<not> snd (snd (read_doubles n st old))"
  by (simp add: read_doubles_def Let_def read_cells_failed)


lemma readResumeInfo_absent: "resume_file w = None \<Longrightarrow> readResumeInfo w s = (False, s)"
  by (simp add: readResumeInfo_def)

lemma readResumeInfo_paramnames [simp]:
  "readResumeInfo (w\<lparr> paramnames_file := x \<rparr>) s = readResumeInfo w s"
  by (simp add: readResumeInfo_def)

lemma readResumeInfo_shape:
  "\<exists>a b c d cu pr ps pss cs.
     snd (readResumeInfo w s) =
       s\<lparr> maxChainLength := a, iteration := b, currentLike := c, currentPrior := d,
          current := cu, prev := pr, paramSum := ps, paramSquaredSum := pss, corSum := cs \<rparr>
     \<and> length cu = length (current s) \<and> length pr = length (prev s)
     \<and> length ps = length (paramSum s) \<and> length pss = length (paramSquaredSum s)
     \<and> length cs = length (corSum s)"
proof (cases "resume_file w")
  case None
  have "s = s\<lparr> maxChainLength := maxChainLength s, iteration := iteration s,
               currentLike := currentLike s, currentPrior := currentPrior s,
               current := current s, prev := prev s, paramSum := paramSum s,
               paramSquaredSum := paramSquaredSum s, corSum := corSum s \<rparr>"
    by simp
  then show ?thesis
    unfolding readResumeInfo_absent [OF None] snd_conv by blast
next
  case (Some cells)
  show ?thesis
    unfolding readResumeInfo_def Some option.case Let_def snd_conv
    by (intro exI conjI, rule refl) (simp_all add: read_doubles_length)
qed

lemma read_success_layout:
  assumes wf: "wf_mh s" and f: "resume_file w = Some cells" and ok: "fst (readResumeInfo w s)"
  shows "\<exists>a b c d v5 v6 v7 v8 v9 rest.
     cells = [CULong a, CULong b, CDouble c, CDouble d]
               @ map CDouble v5 @ map CDouble v6 @ map CDouble v7 @ map CDouble v8
               @ map CDouble v9 @ CInt (resumeCode s) # rest
     \<and> length v5 = nat (n_par s) \<and> length v6 = nat (n_par s) \<and> length v7 = nat (n_par s)
     \<and> length v8 = nat (n_par s) \<and> length v9 = nat (n_par s)
     \<and> readResumeInfo w s =
         (True, s\<lparr> maxChainLength := a, iteration := b, currentLike := c, currentPrior := d,
                   current := v5, prev := v6, paramSum := v7, paramSquaredSum := v8,
                   corSum := v9 \<rparr>)"
proof -
  define n where "n = nat (n_par s)"
  define r1 where "r1 = read_ulong (cells, True) (maxChainLength s)"
  define r2 where "r2 = read_ulong (snd r1) (iteration s)"
  define r3 where "r3 = read_double (snd r2) (currentLike s)"
  define r4 where "r4 = read_double (snd r3) (currentPrior s)"
  define r5 where "r5 = read_doubles n (snd r4) (current s)"
  define r6 where "r6 = read_doubles n (snd r5) (prev s)"
  define r7 where "r7 = read_doubles n (snd r6) (paramSum s)"
  define r8 where "r8 = read_doubles n (snd r7) (paramSquaredSum s)"
  define r9 where "r9 = read_doubles n (snd r8) (corSum s)"
  have rd: "readResumeInfo w s =
      (fst (read_int (snd r9) 0) = resumeCode s,
       s\<lparr> maxChainLength := fst r1, iteration := fst r2, currentLike := fst r3,
          currentPrior := fst r4, current := fst r5, prev := fst r6, paramSum := fst r7,
          paramSquaredSum := fst r8, corSum := fst r9 \<rparr>)"
    unfolding readResumeInfo_def f option.case Let_def
      r1_def r2_def r3_def r4_def r5_def r6_def r7_def r8_def r9_def n_def ..
  from wf have len: "length (current s) = n" "length (prev s) = n" "length (paramSum s) = n"
      "length (paramSquaredSum s) = n" "length (corSum s) = n" and code: "resumeCode s = 123456"
    by (simp_all add: wf_mh_def n_def Let_def)
  from ok rd code have c: "fst (read_int (snd r9) 0) = resumeCode s" "fst (read_int (snd r9) 0) \<noteq> 0"
    by simp_all
  from read_int_good [OF c(2)] c(1) obtain rest where s9: "snd r9 = (CInt (resumeCode s) # rest, True)"
    by auto
  then have "snd (snd r9)" by simp
  from read_doubles_good [OF this [unfolded r9_def] len(5)] obtain v9 where
    v9: "length v9 = n" and s8: "snd r8 = (map CDouble v9 @ fst (snd r9), True)" and e9: "fst r9 = v9"
    unfolding r9_def [symmetric] by auto
  then have "snd (snd r8)" by simp
  from read_doubles_good [OF this [unfolded r8_def] len(4)] obtain v8 where
    v8: "length v8 = n" and s7: "snd r7 = (map CDouble v8 @ fst (snd r8), True)" and e8: "fst r8 = v8"
    unfolding r8_def [symmetric] by auto
  then have "snd (snd r7)" by simp
  from read_doubles_good [OF this [unfolded r7_def] len(3)] obtain v7 where
    v7: "length v7 = n" and s6: "snd r6 = (map CDouble v7 @ fst (snd r7), True)" and e7: "fst r7 = v7"
    unfolding r7_def [symmetric] by auto
  then have "snd (snd r6)" by simp
  from read_doubles_good [OF this [unfolded r6_def] len(2)] obtain v6 where
    v6: "length v6 = n" and s5: "snd r5 = (map CDouble v6 @ fst (snd r6), True)" and e6: "fst r6 = v6"
    unfolding r6_def [symmetric] by auto
  then have "snd (snd r5)" by simp
  from read_doubles_good [OF this [unfolded r5_def] len(1)] obtain v5 where
    v5: "length v5 = n" and s4: "snd r4 = (map CDouble v5 @ fst (snd r5), True)" and e5: "fst r5 = v5"
    unfolding r5_def [symmetric] by auto
  then have "snd (snd r4)" by simp
  from read_double_good [OF this [unfolded r4_def]] obtain d where
    s3: "snd r3 = (CDouble d # fst (snd r4), True)" and e4: "fst r4 = d"
    unfolding r4_def [symmetric] by auto
  then have "snd (snd r3)" by simp
  from read_double_good [OF this [unfolded r3_def]] obtain c where
    s2: "snd r2 = (CDouble c # fst (snd r3), True)" and e3: "fst r3 = c"
    unfolding r3_def [symmetric] by auto
  then have "snd (snd r2)" by simp
  from read_ulong_good [OF this [unfolded r2_def]] obtain b where
    s1: "snd r1 = (CULong b # fst (snd r2), True)" and e2: "fst r2 = b"
    unfolding r2_def [symmetric] by auto
  then have "snd (snd r1)" by simp
  from read_ulong_good [OF this [unfolded r1_def]] obtain a where
    s0: "(cells, True) = (CULong a # fst (snd r1), True)" and e1: "fst r1 = a"
    unfolding r1_def [symmetric] by auto
  have cells: "cells = [CULong a, CULong b, CDouble c, CDouble d]
               @ map CDouble v5 @ map CDouble v6 @ map CDouble v7 @ map CDouble v8
               @ map CDouble v9 @ CInt (resumeCode s) # rest"
    using s0 s1 s2 s3 s4 s5 s6 s7 s8 s9 by simp
  have "readResumeInfo w s =
         (True, s\<lparr> maxChainLength := a, iteration := b, currentLike := c, currentPrior := d,
                   current := v5, prev := v6, paramSum := v7, paramSquaredSum := v8,
                   corSum := v9 \<rparr>)"
    unfolding rd using c(1) e1 e2 e3 e4 e5 e6 e7 e8 e9 by simp
  with cells v5 v6 v7 v8 v9 show ?thesis unfolding n_def by blast
qed

lemma read_written:
  assumes wf: "wf_mh s1" and n: "n_par s1 = n_par s" and f: "resume_file w = Some (resume_cells s @ rest)"
    and len: "length (current s) = nat (n_par s)" "length (prev s) = nat (n_par s)"
      "length (paramSum s) = nat (n_par s)" "length (paramSquaredSum s) = nat (n_par s)"
      "length (corSum s) = nat (n_par s)"
  shows "readResumeInfo w s1 =
         (resumeCode s = resumeCode s1,
          s1\<lparr> maxChainLength := maxChainLength s, iteration := iteration s,
              currentLike := currentLike s, currentPrior := currentPrior s,
              current := current s, prev := prev s, paramSum := paramSum s,
              paramSquaredSum := paramSquaredSum s, corSum := corSum s \<rparr>)"
proof -
  from wf n have l1: "length (current s1) = nat (n_par s)" "length (prev s1) = nat (n_par s)"
      "length (paramSum s1) = nat (n_par s)" "length (paramSquaredSum s1) = nat (n_par s)"
      "length (corSum s1) = nat (n_par s)"
    by (simp_all add: wf_mh_def Let_def)
  show ?thesis
    unfolding readResumeInfo_def f option.case resume_cells_def Let_def n
    using len l1 by (simp add: read_doubles_written)
qed

section \<open>The start of a run\<close>

lemma prior_factor_cong:
  "priorMods s = priorMods s' \<Longrightarrow> param1 s = param1 s' \<Longrightarrow> param2 s = param2 s' \<Longrightarrow>
   current s = current s' \<Longrightarrow> prior_factor e s = prior_factor e s'"
  unfolding prior_factor_def by (intro ext) presburger

lemma calculatePrior_cong:
  "externalPrior s = externalPrior s' \<Longrightarrow> n_par s = n_par s' \<Longrightarrow> priorMods s = priorMods s' \<Longrightarrow>
   param1 s = param1 s' \<Longrightarrow> param2 s = param2 s' \<Longrightarrow> current s = current s' \<Longrightarrow>
   calculatePrior e s = calculatePrior e s'"
  using prior_factor_cong [of s s' e] unfolding calculatePrior_def by presburger

text \<open>The state that a fresh start leaves, for the prior value \<open>pr\<close> of the starting point.\<close>

definition fresh_state :: "64 word \<Rightarrow> double \<Rightarrow> mh \<Rightarrow> mh" where
  "fresh_state maxCL pr s =
     s\<lparr> maxChainLength := maxCL, iteration := 0,
        currentLike := like s (starting s), currentPrior := pr,
        current := starting s, prev := starting s,
        paramSum := replicate (nat (n_par s)) (Fin 0),
        paramSquaredSum := replicate (nat (n_par s)) (Fin 0),
        corSum := replicate (nat (n_par s)) (Fin 0),
        out_open := True, out_fail := False \<rparr>"

lemma fresh_start_after_read:
  assumes wf: "wf_mh s" and o: "\<not> out_open s" and c: "writable w ChainFile"
    and r: "s1 = s\<lparr> maxChainLength := a, iteration := b, currentLike := c', currentPrior := d,
          current := cu, prev := pr', paramSum := ps, paramSquaredSum := pss, corSum := cs \<rparr>"
    and len: "length ps = length (paramSum s)" "length pss = length (paramSquaredSum s)"
      "length cs = length (corSum s)"
  shows "fresh_start e maxCL (w, s1) =
     (case calculatePrior e (s\<lparr> current := starting s \<rparr>) of
        Inl x \<Rightarrow> Inl x
      | Inr pr \<Rightarrow> Inr (w\<lparr> chain_file := Some [] \<rparr>, fresh_state maxCL pr s))"
proof -
  let ?s2 = "s1\<lparr> maxChainLength := maxCL, current := starting s1,
                 currentLike := like s1 (starting s1) \<rparr>"
  have p: "calculatePrior e ?s2 = calculatePrior e (s\<lparr> current := starting s \<rparr>)"
    by (rule calculatePrior_cong) (simp_all add: r)
  from wf len have l: "length ps = nat (n_par s)" "length pss = nat (n_par s)" "length cs = nat (n_par s)"
    by (simp_all add: wf_mh_def Let_def)
  show ?thesis
  proof (cases "calculatePrior e (s\<lparr> current := starting s \<rparr>)")
    case (Inl x)
    then show ?thesis using p by (simp add: fresh_start_def Let_def)
  next
    case (Inr v)
    then show ?thesis
      using p o c l
      by (simp add: fresh_start_def Let_def openOut_def) (simp add: r fresh_state_def)
  qed
qed

lemma run_start_fresh:
  assumes wf: "wf_mh s" and m: "\<not> check_fails e (0 < maxCL)" and b: "\<not> check_fails e (blocks s \<noteq> [])"
    and pn: "writable w ParamNamesFile" and c: "writable w ChainFile" and o: "\<not> out_open s"
    and nr: "\<not> fst (readResumeInfo w s)"
  shows "run_start e maxCL (w, s) =
     (case calculatePrior e (s\<lparr> current := starting s \<rparr>) of
        Inl x \<Rightarrow> Inl x
      | Inr pr \<Rightarrow> Inr (w\<lparr> paramnames_file := Some (paramnames_text s), chain_file := Some [] \<rparr>,
                       fresh_state maxCL pr s, replicate (length (blocks s)) 0))"
proof -
  let ?w1 = "w\<lparr> paramnames_file := Some (paramnames_text s) \<rparr>"
  from readResumeInfo_shape [of w s] obtain a b' c' d cu pr' ps pss cs where
    sh: "snd (readResumeInfo w s) =
       s\<lparr> maxChainLength := a, iteration := b', currentLike := c', currentPrior := d,
          current := cu, prev := pr', paramSum := ps, paramSquaredSum := pss, corSum := cs \<rparr>"
    and len: "length ps = length (paramSum s)" "length pss = length (paramSquaredSum s)"
      "length cs = length (corSum s)"
    by blast
  have c1: "writable ?w1 ChainFile" using c by simp
  note fs = fresh_start_after_read [OF wf o c1 sh len, of e maxCL]
  have rs: "run_start e maxCL (w, s) =
      (case fresh_start e maxCL (?w1, snd (readResumeInfo w s)) of
         Inl x \<Rightarrow> Inl x
       | Inr ws2 \<Rightarrow> Inr (fst ws2, snd ws2, replicate (length (blocks (snd ws2))) 0))"
    using m b pn nr by (simp add: run_start_def Let_def)
  show ?thesis
    unfolding rs fs
    by (cases "calculatePrior e (s\<lparr> current := starting s \<rparr>)") (simp_all add: fresh_state_def)
qed

lemma run_start_resume:
  assumes m: "\<not> check_fails e (0 < maxCL)" and b: "\<not> check_fails e (blocks s \<noteq> [])"
    and pn: "writable w ParamNamesFile" and c: "writable w ChainFile" and o: "\<not> out_open s"
    and r: "readResumeInfo w s = (True, s1)"
  shows "run_start e maxCL (w, s) =
     Inr (w\<lparr> paramnames_file := Some (paramnames_text s),
              chain_file := Some (case chain_file w of None \<Rightarrow> [] | Some txt \<Rightarrow> txt) \<rparr>,
          s1\<lparr> out_open := True, out_fail := False \<rparr>, replicate (length (blocks s)) 0)"
proof -
  from readResumeInfo_shape [of w s] r have bl: "blocks s1 = blocks s" and o1: "out_open s1 = out_open s"
    by auto
  show ?thesis
    using m b pn c o r bl o1 by (simp add: run_start_def Let_def openOut_def)
qed

lemma run_start_arg_ignored:
  assumes "fst (readResumeInfo w s)" and "\<not> check_fails e (0 < m1)" and "\<not> check_fails e (0 < m2)"
  shows "run_start e m1 (w, s) = run_start e m2 (w, s)"
  using assms by (simp add: run_start_def Let_def)



lemma run_start_resumed_state:
  assumes "fst (readResumeInfo w s)" and "run_start e m (w, s) = Inr (w', s', acc)"
  shows "s' = (snd (readResumeInfo w s))\<lparr> out_open := True, out_fail := False \<rparr>"
proof -
  let ?w1 = "w\<lparr> paramnames_file := Some (paramnames_text s) \<rparr>"
  from assms obtain ws2 where o: "openOut True (?w1, snd (readResumeInfo w s)) = Inr ws2"
    and s': "s' = snd ws2"
    by (simp add: run_start_def Let_def split: if_splits sum.splits)
  from openOut_state [OF o] s' show ?thesis by simp
qed

lemma fresh_start_max:
  assumes "fresh_start e m ws = Inr ws'"
  shows "maxChainLength (snd ws') = m"
proof -
  from assms obtain pr s3 where o: "openOut False (fst ws, s3) = Inr ws'" and m: "maxChainLength s3 = m"
    by (simp add: fresh_start_def Let_def split: sum.splits)
  from openOut_state [OF o] m show ?thesis by simp
qed

lemma run_start_fresh_max:
  assumes "\<not> fst (readResumeInfo w s)" and "run_start e m (w, s) = Inr (w', s', acc)"
  shows "maxChainLength s' = m"
proof -
  let ?w1 = "w\<lparr> paramnames_file := Some (paramnames_text s) \<rparr>"
  from assms obtain ws2 where o: "fresh_start e m (?w1, snd (readResumeInfo w s)) = Inr ws2"
    and s': "s' = snd ws2"
    by (simp add: run_start_def Let_def split: if_splits sum.splits)
  from fresh_start_max [OF o] s' show ?thesis by simp
qed

text \<open>The state that \<^verbatim>\<open>readResumeInfo\<close> leaves when it loads the checkpoint of \<open>s\<close> into \<open>s1\<close>.\<close>

definition restored :: "mh \<Rightarrow> mh \<Rightarrow> mh" where
  "restored s s1 =
     s1\<lparr> maxChainLength := maxChainLength s, iteration := iteration s,
         currentLike := currentLike s, currentPrior := currentPrior s,
         current := current s, prev := prev s, paramSum := paramSum s,
         paramSquaredSum := paramSquaredSum s, corSum := corSum s \<rparr>"

lemma round_trip:
  assumes "writable w ResumeFile" and "wf_mh s" and "wf_mh s1" and "n_par s1 = n_par s"
  shows "readResumeInfo (writeResumeInfo w s) s1 = (True, restored s s1)"
proof -
  have f: "resume_file (writeResumeInfo w s) = Some (resume_cells s @ [])"
    using assms(1) by (simp add: writeResumeInfo_def)
  from assms(2) have len: "length (current s) = nat (n_par s)" "length (prev s) = nat (n_par s)"
      "length (paramSum s) = nat (n_par s)" "length (paramSquaredSum s) = nat (n_par s)"
      "length (corSum s) = nat (n_par s)" and c: "resumeCode s = 123456"
    by (simp_all add: wf_mh_def Let_def)
  from assms(3) have c1: "resumeCode s1 = 123456" by (simp add: wf_mh_def Let_def)
  show ?thesis
    unfolding read_written [OF assms(3,4) f len] restored_def using c c1 by simp
qed

section \<open>Runs that raise nothing\<close>

text \<open>
  The built-in prior of every parameter is configured and proper (or the prior is
  external, or the checks are compiled out); a plug-in proposal fills the buffer it is
  given; the block boundaries do not decrease from 0 and stay within the vectors.
\<close>

definition prior_ok :: "env \<Rightarrow> mh \<Rightarrow> bool" where
  "prior_ok e s =
     (externalPrior s \<noteq> None \<or> \<not> CHECKS_ON e \<or>
      (\<forall>i<nat (n_par s).
         (priorMods s ! i = UNIFORM_PRIOR \<and> dgt (param2 s ! i) (param1 s ! i)) \<or>
         (priorMods s ! i = GAUSSIAN_PRIOR \<and> dgt (param2 s ! i) (Fin 0))))"

definition proposal_ok :: "mh \<Rightarrow> bool" where
  "proposal_ok s =
     (case externalProposal s of
        None \<Rightarrow> True
      | Some prop \<Rightarrow> \<forall>k cur i buf. length (generate prop k cur i buf) = length buf)"

fun blocks_ok :: "int \<Rightarrow> int \<Rightarrow> int list \<Rightarrow> bool" where
  "blocks_ok n blockBegin [] = True"
| "blocks_ok n blockBegin (blockEnd # bl) =
     (blockBegin \<le> blockEnd \<and> (blockBegin < blockEnd \<longrightarrow> 0 \<le> blockBegin \<and> blockEnd \<le> n)
      \<and> blocks_ok n blockEnd bl)"

lemma forE_succeeds:
  "(\<And>i a. i \<in> set js \<Longrightarrow> \<exists>b. f i a = Inr b) \<Longrightarrow> \<exists>b. forE js f a = Inr b"
proof (induction js arbitrary: a)
  case Nil
  then show ?case by simp
next
  case (Cons j js)
  from Cons.prems [of j a] obtain b where b: "f j a = Inr b" by auto
  from Cons.IH [of b] Cons.prems obtain c where "forE js f b = Inr c" by auto
  with b show ?case by simp
qed

lemma prior_factor_succeeds:
  assumes "prior_ok e s" and "externalPrior s = None" and "i < nat (n_par s)"
  shows "\<exists>b. prior_factor e s i a = Inr b"
proof (cases "CHECKS_ON e")
  case False
  then show ?thesis
    by (cases "priorMods s ! i")
       (simp_all add: prior_factor_def uniformPrior_def gaussPrior_def check_fails_def Let_def)
next
  case True
  with assms have "(priorMods s ! i = UNIFORM_PRIOR \<and> dgt (param2 s ! i) (param1 s ! i)) \<or>
         (priorMods s ! i = GAUSSIAN_PRIOR \<and> dgt (param2 s ! i) (Fin 0))"
    by (auto simp: prior_ok_def)
  then show ?thesis
    by (auto simp: prior_factor_def uniformPrior_def gaussPrior_def check_fails_def Let_def)
qed

lemma calculatePrior_succeeds: "prior_ok e s \<Longrightarrow> \<exists>pr. calculatePrior e s = Inr pr"
proof (cases "externalPrior s")
  case None
  assume ok: "prior_ok e s"
  have "\<exists>b. forE [0..<nat (n_par s)] (prior_factor e s) (Fin 1) = Inr b"
    by (rule forE_succeeds) (use prior_factor_succeeds [OF ok None] in auto)
  then show ?thesis by (simp add: calculatePrior_def None)
next
  case (Some prior)
  then show ?thesis by (simp add: calculatePrior_def)
qed

lemma prior_ok_frame: "block_frame s' = block_frame s \<Longrightarrow> prior_ok e s' = prior_ok e s"
proof -
  have "\<And>s. prior_ok e s = prior_ok e (block_frame s)"
    by (simp add: prior_ok_def block_frame_def)
  then show "block_frame s' = block_frame s \<Longrightarrow> prior_ok e s' = prior_ok e s" by metis
qed

lemma proposal_ok_frame: "block_frame s' = block_frame s \<Longrightarrow> proposal_ok s' = proposal_ok s"
proof -
  have "\<And>s. proposal_ok s = proposal_ok (block_frame s)"
    by (simp add: proposal_ok_def block_frame_def)
  then show "block_frame s' = block_frame s \<Longrightarrow> proposal_ok s' = proposal_ok s" by metis
qed

lemma frame_blocks: "block_frame s' = block_frame s \<Longrightarrow> blocks s' = blocks s \<and> n_par s' = n_par s"
proof -
  have "\<And>s. blocks s = blocks (block_frame s) \<and> n_par s = n_par (block_frame s)"
    by (simp add: block_frame_def)
  then show "block_frame s' = block_frame s \<Longrightarrow> blocks s' = blocks s \<and> n_par s' = n_par s" by metis
qed

lemma propose_block_succeeds:
  assumes "proposal_ok s" and "block_range_ok s bb be"
  shows "\<exists>bs. propose_block e s i bb be = Inr bs"
  using assms by (auto simp: propose_block_def proposal_ok_def Let_def split: option.splits)

lemma block_trial_succeeds:
  assumes p: "prior_ok e s" and q: "proposal_ok s" and le: "bb \<le> blocks s ! i"
    and r: "block_range_ok s bb (blocks s ! i)"
  shows "\<exists>t. block_trial e i bb s = Inr t"
proof -
  from propose_block_succeeds [OF q r, of e i] obtain bs where
    bs: "propose_block e s i bb (blocks s ! i) = Inr bs" by blast
  let ?s3 = "(snd bs)\<lparr> current := overwrite_block (current (snd bs)) bb (fst bs),
                        currentLike := like (snd bs) (overwrite_block (current (snd bs)) bb (fst bs)) \<rparr>"
  have "block_frame ?s3 = block_frame (snd bs)" by (simp add: block_frame_def)
  also have "\<dots> = block_frame s" using propose_block_frame [OF bs] .
  finally have "prior_ok e ?s3" using p prior_ok_frame by blast
  from calculatePrior_succeeds [OF this] obtain pr where "calculatePrior e ?s3 = Inr pr" by blast
  then show ?thesis
    using bs le r by (simp add: block_trial_def Let_def)
qed

lemma block_step_succeeds:
  assumes "prior_ok e (fst (snd (snd st)))" and "proposal_ok (fst (snd (snd st)))"
    and "fst st \<le> blocks (fst (snd (snd st))) ! i"
    and "block_range_ok (fst (snd (snd st))) (fst st) (blocks (fst (snd (snd st))) ! i)"
  shows "\<exists>st'. block_step e i st = Inr st' \<and> fst st' = blocks (fst (snd (snd st))) ! i"
proof -
  from block_trial_succeeds [OF assms] obtain t where
    "block_trial e i (fst st) (fst (snd (snd st))) = Inr t" by blast
  then show ?thesis by (simp add: block_step_def Let_def)
qed

lemma block_step_world:
  "block_step e i st = Inr st' \<Longrightarrow>
   fst (snd st') = (fst (snd st))\<lparr> rand_calls := Suc (rand_calls (fst (snd st))) \<rparr>"
  by (auto simp: block_step_def block_decide_def Let_def split: sum.splits if_splits)

lemma block_step_accepted_length:
  "block_step e i st = Inr st' \<Longrightarrow> length (snd (snd (snd st'))) = length (snd (snd (snd st)))"
  by (auto simp: block_step_def block_decide_def Let_def split: sum.splits if_splits)

lemma blocks_loop_succeeds:
  assumes "prior_ok e (fst (snd (snd st)))" and "proposal_ok (fst (snd (snd st)))"
    and "blocks_ok (n_par (fst (snd (snd st)))) (fst st) (map (\<lambda>i. blocks (fst (snd (snd st))) ! i) js)"
  shows "\<exists>st'. forE js (block_step e) st = Inr st'"
  using assms
proof (induction js arbitrary: st)
  case Nil
  show ?case by (intro exI [of _ st]) simp
next
  case (Cons j js)
  let ?s = "fst (snd (snd st))"
  from Cons.prems(3) have le: "fst st \<le> blocks ?s ! j"
    and rg: "fst st < blocks ?s ! j \<longrightarrow> 0 \<le> fst st \<and> blocks ?s ! j \<le> n_par ?s"
    and rest: "blocks_ok (n_par ?s) (blocks ?s ! j) (map (\<lambda>i. blocks ?s ! i) js)"
    by simp_all
  from le rg have r: "block_range_ok ?s (fst st) (blocks ?s ! j)"
    unfolding block_range_ok_def by linarith
  from block_step_succeeds [OF Cons.prems(1,2) le r] obtain st1 where
    st1: "block_step e j st = Inr st1" and b1: "fst st1 = blocks ?s ! j" by blast
  note fr = block_step_frame [OF st1]
  have p1: "prior_ok e (fst (snd (snd st1)))" using Cons.prems(1) prior_ok_frame [OF fr] by simp
  have q1: "proposal_ok (fst (snd (snd st1)))" using Cons.prems(2) proposal_ok_frame [OF fr] by simp
  have bl: "blocks (fst (snd (snd st1))) = blocks ?s" "n_par (fst (snd (snd st1))) = n_par ?s"
    using frame_blocks [OF fr] by simp_all
  from Cons.IH [OF p1 q1] rest b1 bl obtain st' where "forE js (block_step e) st1 = Inr st'"
    by auto
  with st1 have "forE (j # js) (block_step e) st = Inr st'" by simp
  then show ?case by blast
qed

lemma blocks_loop_world:
  "forE js (block_step e) st = Inr st' \<Longrightarrow>
   writable (fst (snd st')) = writable (fst (snd st))
   \<and> chain_file (fst (snd st')) = chain_file (fst (snd st))
   \<and> resume_file (fst (snd st')) = resume_file (fst (snd st))
   \<and> paramnames_file (fst (snd st')) = paramnames_file (fst (snd st))
   \<and> length (snd (snd (snd st'))) = length (snd (snd (snd st)))"
proof (induction js arbitrary: st)
  case Nil
  then show ?case by simp
next
  case (Cons j js)
  from Cons.prems obtain st1 where st1: "block_step e j st = Inr st1"
    and r: "forE js (block_step e) st1 = Inr st'"
    by (auto split: sum.splits)
  from Cons.IH [OF r] block_step_world [OF st1] block_step_accepted_length [OF st1]
  show ?case by simp
qed


lemma frame_fields:
  assumes "block_frame s' = block_frame s"
  shows "out_open s' = out_open s" and "out_fail s' = out_fail s" and "iteration s' = iteration s"
    and "maxChainLength s' = maxChainLength s" and "prev s' = prev s"
    and "paramSum s' = paramSum s" and "paramSquaredSum s' = paramSquaredSum s"
    and "corSum s' = corSum s" and "accuracy s' = accuracy s" and "n_par s' = n_par s"
    and "blocks s' = blocks s" and "resumeCode s' = resumeCode s"
proof -
  have "\<And>s. out_open s = out_open (block_frame s) \<and> out_fail s = out_fail (block_frame s)
      \<and> iteration s = iteration (block_frame s) \<and> maxChainLength s = maxChainLength (block_frame s)
      \<and> prev s = prev (block_frame s) \<and> paramSum s = paramSum (block_frame s)
      \<and> paramSquaredSum s = paramSquaredSum (block_frame s) \<and> corSum s = corSum (block_frame s)
      \<and> accuracy s = accuracy (block_frame s) \<and> n_par s = n_par (block_frame s)
      \<and> blocks s = blocks (block_frame s) \<and> resumeCode s = resumeCode (block_frame s)"
    by (simp add: block_frame_def)
  with assms show "out_open s' = out_open s" and "out_fail s' = out_fail s"
    and "iteration s' = iteration s"
    and "maxChainLength s' = maxChainLength s" and "prev s' = prev s"
    and "paramSum s' = paramSum s" and "paramSquaredSum s' = paramSquaredSum s"
    and "corSum s' = corSum s" and "accuracy s' = accuracy s" and "n_par s' = n_par s"
    and "blocks s' = blocks s" and "resumeCode s' = resumeCode s"
    by metis+
qed

text \<open>The members that a whole sweep leaves alone.\<close>

definition sweep_frame :: "mh \<Rightarrow> mh" where
  "sweep_frame s = (block_frame s)\<lparr> prev := [], paramSum := [], paramSquaredSum := [],
                      corSum := [], iteration := 0, out_open := False, out_fail := False \<rparr>"


lemma sweep_frame_update [simp]: "sweep_frame (update s) = sweep_frame s"
  by (simp add: sweep_frame_def block_frame_def update_def Let_def)

lemma sweep_frame_simps [simp]:
  "sweep_frame (s\<lparr> iteration := k \<rparr>) = sweep_frame s"
  "sweep_frame (s\<lparr> out_open := b \<rparr>) = sweep_frame s"
  "sweep_frame (s\<lparr> out_fail := b \<rparr>) = sweep_frame s"
  by (simp_all add: sweep_frame_def block_frame_def)

lemma chain_row_update [simp]: "chain_row (update s) = chain_row s"
  by (simp add: chain_row_def update_def Let_def)

lemma chain_row_simps [simp]:
  "chain_row (s\<lparr> iteration := k \<rparr>) = chain_row s"
  "chain_row (s\<lparr> out_open := b \<rparr>) = chain_row s"
  "chain_row (s\<lparr> out_fail := b \<rparr>) = chain_row s"
  by (simp_all add: chain_row_def)

lemma update_flags [simp]: "out_open (update s) = out_open s" "out_fail (update s) = out_fail s"
  by (simp_all add: update_def Let_def)

text \<open>What a sweep does to the files and the stream, when the stream is open and good.\<close>

definition after_sweep :: "env \<Rightarrow> bool \<Rightarrow> world \<Rightarrow> mh \<Rightarrow> world" where
  "after_sweep e b w s' =
     (let w2 = w\<lparr> rand_calls := rand_calls w + length (blocks s'),
                  chain_file := Some ((case chain_file w of None \<Rightarrow> [] | Some txt \<Rightarrow> txt)
                                      @ row_text e (chain_row s')) \<rparr>
      in if b then writeResumeInfo w2 s' else w2)"





text \<open>The condition that the loop of \<^verbatim>\<open>run\<close> keeps, and under which no sweep throws.\<close>

definition run_ok :: "env \<Rightarrow> world \<Rightarrow> mh \<Rightarrow> bool" where
  "run_ok e w s =
     (writable w ChainFile \<and> out_open s \<and> \<not> out_fail s \<and> prior_ok e s \<and> proposal_ok s
      \<and> blocks_ok (n_par s) 0 (blocks s))"

lemma sweep_succeeds:
  assumes ok: "run_ok e w s"
  shows "\<exists>st'. sweep e b (w, s, acc) = Inr st'"
proof -
  from ok have wr: "writable w ChainFile" and o: "out_open s" and nf: "\<not> out_fail s"
    and p: "prior_ok e s" and q: "proposal_ok s" and bo: "blocks_ok (n_par s) 0 (blocks s)"
    by (simp_all add: run_ok_def)
  have "map (\<lambda>i. blocks s ! i) [0..<length (blocks s)] = blocks s" by (rule map_nth)
  with bo have bo': "blocks_ok (n_par (fst (snd (snd (0, w, s, acc))))) (fst (0, w, s, acc))
      (map (\<lambda>i. blocks (fst (snd (snd (0, w, s, acc)))) ! i) [0..<length (blocks s)])"
    by simp
  from blocks_loop_succeeds [of e "(0, w, s, acc)", OF _ _ bo'] p q obtain st1 where
    l: "forE [0..<length (blocks s)] (block_step e) (0, w, s, acc) = Inr st1"
    by auto
  define w1 where "w1 = fst (snd st1)"
  define s1 where "s1 = fst (snd (snd st1))"
  define acc1 where "acc1 = snd (snd (snd st1))"
  have fr: "block_frame s1 = block_frame s"
    using blocks_loop_frame [OF l] by (simp add: s1_def)
  note ff = frame_fields [OF fr]
  have wr1: "writable w1 ChainFile"
    using blocks_loop_world [OF l] wr by (simp add: w1_def)
  define w2 where "w2 = w1\<lparr> chain_file := Some ((case chain_file w1 of None \<Rightarrow> [] | Some txt \<Rightarrow> txt)
                                      @ row_text e (chain_row s1)) \<rparr>"
  have wc: "writeChainElement e (w1, s1) = Inr (w2, s1)"
    using o nf ff(1,2) by (simp add: writeChainElement_def check_fails_def w2_def Let_def)
  define s3 where "s3 = update (s1\<lparr> iteration := iteration s1 + 1 \<rparr>)"
  define w3 where "w3 = (if b then writeResumeInfo w2 s3 else w2)"
  have sw': "sweep e b (w, s, acc) =
      (if iteration s3 mod 1000 = 0
       then (case openOut True (w3, closeOut s3) of
               Inl x \<Rightarrow> Inl x
             | Inr ws4 \<Rightarrow> Inr (fst ws4, snd ws4, acc1))
       else Inr (w3, s3, acc1))"
    unfolding sweep_def Let_def fst_conv snd_conv l sum.case
      w1_def [symmetric] s1_def [symmetric] acc1_def [symmetric] wc
      s3_def [symmetric] w3_def [symmetric] ..
  have wr3: "writable w3 ChainFile"
    using wr1 by (simp add: w3_def w2_def writeResumeInfo_def)
  have o3: "out_open s3" using o ff(1) by (simp add: s3_def)
  have "\<exists>ws4. openOut True (w3, closeOut s3) = Inr ws4"
    using wr3 o3 by (simp add: openOut_def closeOut_def Let_def)
  then show ?thesis unfolding sw' by (cases "iteration s3 mod 1000 = 0") auto
qed


lemma writable_after_sweep [simp]: "writable (after_sweep e b w s') = writable w"
  by (simp add: after_sweep_def writeResumeInfo_def Let_def)




lemma closeOut_fields [simp]:
  "maxChainLength (closeOut s) = maxChainLength s" "accuracy (closeOut s) = accuracy s"
  "n_par (closeOut s) = n_par s" "stdMean (closeOut s) i = stdMean s i"
  "stop_params (closeOut s) js = stop_params s js" "stop (closeOut s) = stop s"
proof -
  show a: "maxChainLength (closeOut s) = maxChainLength s" "accuracy (closeOut s) = accuracy s"
    "n_par (closeOut s) = n_par s"
    by (simp_all add: closeOut_def)
  show b: "\<And>i. stdMean (closeOut s) i = stdMean s i"
    by (simp add: stdMean_def closeOut_def)
  show c: "\<And>js. stop_params (closeOut s) js = stop_params s js"
  proof -
    fix js show "stop_params (closeOut s) js = stop_params s js"
      by (induction js) (simp_all add: a b)
  qed
  show "stop (closeOut s) = stop s" by (simp add: stop_def a c)
qed

lemma sweep_maxChainLength:
  assumes "sweep e wri st = Inr st'"
  shows "maxChainLength (fst (snd st')) = maxChainLength (fst (snd st))"
proof -
  from assms obtain st1 ws2 where
    l: "forE [0..<length (blocks (fst (snd st)))] (block_step e) (0, fst st, fst (snd st), snd (snd st)) = Inr st1"
    and c: "writeChainElement e (fst (snd st1), fst (snd (snd st1))) = Inr ws2"
    by (auto simp: sweep_def Let_def split: sum.splits)
  have i1: "maxChainLength (fst (snd (snd st1))) = maxChainLength (fst (snd st))"
    using frame_fields(4) [OF blocks_loop_frame [OF l]] by simp
  have i2: "maxChainLength (snd ws2) = maxChainLength (fst (snd st))"
    using writeChainElement_state [OF c] i1 by auto
  define s3 where "s3 = update ((snd ws2)\<lparr> iteration := iteration (snd ws2) + 1 \<rparr>)"
  have i3: "maxChainLength s3 = maxChainLength (fst (snd st))"
    using i2 by (simp add: s3_def update_def Let_def)
  have i4: "maxChainLength (closeOut s3) = maxChainLength (fst (snd st))"
    using i3 by (simp add: closeOut_def)
  from assms have "fst (snd st') = s3 \<or> (\<exists>w3 ws4. openOut True (w3, closeOut s3) = Inr ws4 \<and> fst (snd st') = snd ws4)"
    unfolding sweep_def Let_def l c sum.case s3_def [symmetric]
    by (auto split: if_splits sum.splits)
  then show ?thesis
    using i3 i4 by (auto dest!: openOut_state)
qed

lemma run_loop_maxChainLength:
  "run_loop e b st = Inr st' \<Longrightarrow> maxChainLength (fst (snd st')) = maxChainLength (fst (snd st))"
proof (induction e b st rule: run_loop.induct)
  case (1 e b st)
  show ?case
  proof (cases "stop (fst (snd st))")
    case True
    with "1.prems" show ?thesis by (subst (asm) run_loop.simps) simp
  next
    case False
    from "1.prems" have "(case sweep e b st of Inl x \<Rightarrow> Inl x | Inr st1 \<Rightarrow> run_loop e b st1) = Inr st'"
      using False by (subst (asm) run_loop.simps) simp
    then obtain st1 where sw: "sweep e b st = Inr st1"
      and r: "run_loop e b st1 = Inr st'"
      by (cases "sweep e b st") auto
    from "1.IH" [OF False sw r] sweep_maxChainLength [OF sw] show ?thesis by simp
  qed
qed

text \<open>\<open>M\<close> sweeps in a row.\<close>

fun sweeps ::
  "env \<Rightarrow> bool \<Rightarrow> nat \<Rightarrow> world \<times> mh \<times> 64 word list \<Rightarrow> error + world \<times> mh \<times> 64 word list" where
  "sweeps e b 0 st = Inr st"
| "sweeps e b (Suc k) st = (case sweep e b st of Inl x \<Rightarrow> Inl x | Inr st' \<Rightarrow> sweeps e b k st')"

lemma sweeps_iteration:
  "sweeps e b M st = Inr st' \<Longrightarrow> iteration (fst (snd st')) = iteration (fst (snd st)) + of_nat M"
proof (induction M arbitrary: st)
  case 0
  then show ?case by simp
next
  case (Suc M)
  from Suc.prems obtain st1 where sw: "sweep e b st = Inr st1" and r: "sweeps e b M st1 = Inr st'"
    by (auto split: sum.splits)
  from Suc.IH [OF r] sweep_iteration [OF sw] show ?case by simp
qed

lemma sweeps_count:
  assumes "sweeps e b M st = Inr st'" and "unat (iteration (fst (snd st))) + M < 2 ^ 64"
  shows "unat (iteration (fst (snd st'))) = unat (iteration (fst (snd st))) + M"
proof -
  have "iteration (fst (snd st')) = iteration (fst (snd st)) + of_nat M"
    using sweeps_iteration [OF assms(1)] .
  then have "unat (iteration (fst (snd st'))) = (unat (iteration (fst (snd st))) + M) mod 2 ^ 64"
    by (simp add: unat_word_ariths unat_of_nat mod_add_right_eq)
  with assms(2) show ?thesis by simp
qed




section \<open>The lengths of the vectors\<close>

text \<open>
  The constructor gives every vector \<^verbatim>\<open>n_\<close> entries and sets the code, and no member
  function changes a length, \<^verbatim>\<open>n_\<close> or the code: \<open>wf_mh\<close> holds of every engine that
  the class can reach. \<open>lengths\<close> collects what \<open>wf_mh\<close> reads.
\<close>

definition lengths :: "mh \<Rightarrow> int \<times> nat list \<times> int" where
  "lengths s =
     (n_par s,
      [length (paramNames s), length (param1 s), length (param2 s), length (starting s),
       length (samplingWidth s), length (accuracy s), length (paramSum s),
       length (paramSquaredSum s), length (corSum s), length (priorMods s),
       length (prev s), length (current s)],
      resumeCode s)"

lemma wf_lengths: "lengths s' = lengths s \<Longrightarrow> wf_mh s' = wf_mh s"
  by (simp add: lengths_def wf_mh_def Let_def)

lemma lengths_setParam:
  "setParam e i name mn mx start width acc s = Inr s' \<Longrightarrow> lengths s' = lengths s"
  unfolding setParam_def Let_def by (auto simp: lengths_def split: if_splits)

lemma lengths_setParamGauss:
  "setParamGauss e i name mean sigma start width acc s = Inr s' \<Longrightarrow> lengths s' = lengths s"
  unfolding setParamGauss_def Let_def by (auto simp: lengths_def split: if_splits)

lemma lengths_specifyParameterBlocks:
  "specifyParameterBlocks e bl s = Inr s' \<Longrightarrow> lengths s' = lengths s"
  unfolding specifyParameterBlocks_def by (auto simp: lengths_def split: if_splits sum.splits)

lemma wf_constructor: "MetropolisHastings e nPar lk junk = Inr s \<Longrightarrow> wf_mh s"
  by (auto simp: MetropolisHastings_def wf_mh_def Let_def split: if_splits)

lemma wf_setParam:
  "setParam e i name mn mx start width acc s = Inr s' \<Longrightarrow> wf_mh s' = wf_mh s"
  by (rule wf_lengths) (rule lengths_setParam)

lemma wf_setParamGauss:
  "setParamGauss e i name mean sigma start width acc s = Inr s' \<Longrightarrow> wf_mh s' = wf_mh s"
  by (rule wf_lengths) (rule lengths_setParamGauss)

lemma wf_specifyParameterBlocks:
  "specifyParameterBlocks e bl s = Inr s' \<Longrightarrow> wf_mh s' = wf_mh s"
  by (rule wf_lengths) (rule lengths_specifyParameterBlocks)

lemma wf_useExternal:
  "wf_mh (useExternalPrior prior s) = wf_mh s" "wf_mh (useExternalProposal prop s) = wf_mh s"
  by (simp_all add: useExternalPrior_def useExternalProposal_def wf_mh_def Let_def)

lemma lengths_flags [simp]:
  "lengths (s\<lparr> out_open := a \<rparr>) = lengths s" "lengths (s\<lparr> out_fail := b \<rparr>) = lengths s"
  "lengths (s\<lparr> iteration := k \<rparr>) = lengths s"
  by (simp_all add: lengths_def)

lemma lengths_closeOut [simp]: "lengths (closeOut s) = lengths s"
  by (simp add: closeOut_def)

lemma length_overwrite_block [simp]: "length (overwrite_block cur bb block) = length cur"
proof -
  have "length (fold (\<lambda>k c. c[nat bb + k := block ! k]) ks cur) = length cur" for ks
    by (induction ks arbitrary: cur) auto
  then show ?thesis by (simp add: overwrite_block_def)
qed

lemma lengths_propose_block:
  "propose_block e s i bb be = Inr bs \<Longrightarrow> lengths (snd bs) = lengths s"
  by (auto simp: propose_block_def lengths_def Let_def split: option.splits if_splits)

lemma lengths_block_trial:
  assumes "block_trial e i bb s = Inr t"
  shows "lengths (t_state t) = lengths s \<and> length (t_currentOld t) = length (current s)"
proof -
  from assms obtain bs pr where
    p: "propose_block e s i bb (blocks s ! i) = Inr bs"
    and t: "t = \<lparr> t_state = (snd bs)\<lparr> current := overwrite_block (current (snd bs)) bb (fst bs),
                     currentLike := like (snd bs) (overwrite_block (current (snd bs)) bb (fst bs)) \<rparr>,
                 t_currentOld = current (snd bs), t_oldLike = currentLike (snd bs),
                 t_block = fst bs, t_newPrior = pr,
                 t_p = acceptance ((snd bs)\<lparr> current := overwrite_block (current (snd bs)) bb (fst bs),
                     currentLike := like (snd bs) (overwrite_block (current (snd bs)) bb (fst bs)) \<rparr>)
                        i bb (blocks s ! i) (current (snd bs)) (fst bs) (currentLike (snd bs)) pr \<rparr>"
    unfolding block_trial_def Let_def by (auto split: sum.splits if_splits)
  from lengths_propose_block [OF p] have l: "lengths (snd bs) = lengths s" .
  then have c: "length (current (snd bs)) = length (current s)" by (simp add: lengths_def)
  have "lengths (t_state t) = lengths (snd bs)" unfolding t by (simp add: lengths_def)
  with l c show ?thesis unfolding t by simp
qed

lemma lengths_block_step:
  assumes "block_step e i st = Inr st'"
  shows "lengths (fst (snd (snd st'))) = lengths (fst (snd (snd st)))"
proof -
  from assms obtain t where
    t: "block_trial e i (fst st) (fst (snd (snd st))) = Inr t"
    and s: "st' = (blocks (fst (snd (snd st))) ! i, block_decide e i t (fst (snd st)) (snd (snd (snd st))))"
    unfolding block_step_def Let_def by (auto split: sum.splits)
  from lengths_block_trial [OF t]
  have l: "lengths (t_state t) = lengths (fst (snd (snd st)))"
    and c: "length (t_currentOld t) = length (current (fst (snd (snd st))))" by simp_all
  have "lengths (fst (snd (block_decide e i t w a))) = lengths (fst (snd (snd st)))" for w a
    using l c by (simp add: block_decide_def Let_def lengths_def)
  then show ?thesis unfolding s by simp
qed

lemma lengths_blocks_loop:
  "forE js (block_step e) st = Inr st' \<Longrightarrow>
   lengths (fst (snd (snd st'))) = lengths (fst (snd (snd st)))"
  by (rule forE_inv [where P = "\<lambda>x. lengths (fst (snd (snd x))) = lengths (fst (snd (snd st)))"])
     (auto dest: lengths_block_step)

lemma lengths_update: "wf_mh s \<Longrightarrow> lengths (update s) = lengths s"
  by (simp add: update_def wf_mh_def lengths_def Let_def)

lemma wf_sweep:
  assumes "sweep e b st = Inr st'" and "wf_mh (fst (snd st))"
  shows "wf_mh (fst (snd st'))"
proof -
  from assms(1) obtain st1 ws2 where
    l: "forE [0..<length (blocks (fst (snd st)))] (block_step e) (0, fst st, fst (snd st), snd (snd st)) = Inr st1"
    and c: "writeChainElement e (fst (snd st1), fst (snd (snd st1))) = Inr ws2"
    by (auto simp: sweep_def Let_def split: sum.splits)
  have "lengths (fst (snd (snd st1))) = lengths (fst (snd st))"
    using lengths_blocks_loop [OF l] by simp
  then have "lengths (snd ws2) = lengths (fst (snd st))"
    using writeChainElement_state [OF c] by auto
  then have w2: "wf_mh ((snd ws2)\<lparr> iteration := iteration (snd ws2) + 1 \<rparr>)"
    using assms(2) wf_lengths [of "(snd ws2)\<lparr> iteration := iteration (snd ws2) + 1 \<rparr>" "fst (snd st)"]
    by simp
  have u: "wf_mh (update ((snd ws2)\<lparr> iteration := iteration (snd ws2) + 1 \<rparr>))"
    using wf_lengths [OF lengths_update [OF w2]] w2 by simp
  have o: "wf_mh (x\<lparr> out_open := True, out_fail := False \<rparr>) = wf_mh x" for x
    by (rule wf_lengths) simp
  have cl: "wf_mh (closeOut x) = wf_mh x" for x
    by (rule wf_lengths) simp
  show ?thesis
    using assms(1) l c u
    by (auto simp: sweep_def Let_def o cl split: sum.splits if_splits dest!: openOut_state)
qed

lemma wf_sweeps:
  "sweeps e b k st = Inr st' \<Longrightarrow> wf_mh (fst (snd st)) \<Longrightarrow> wf_mh (fst (snd st'))"
proof (induction k arbitrary: st)
  case 0
  then show ?case by simp
next
  case (Suc k)
  then show ?case by (auto split: sum.splits dest: wf_sweep)
qed

lemma wf_readResumeInfo: "wf_mh s \<Longrightarrow> wf_mh (snd (readResumeInfo w s))"
proof -
  assume a: "wf_mh s"
  from readResumeInfo_shape [of w s] obtain a' b c d cu pr ps pss cs where
    r: "snd (readResumeInfo w s) =
       s\<lparr> maxChainLength := a', iteration := b, currentLike := c, currentPrior := d,
          current := cu, prev := pr, paramSum := ps, paramSquaredSum := pss, corSum := cs \<rparr>"
    and l: "length cu = length (current s)" "length pr = length (prev s)"
     "length ps = length (paramSum s)" "length pss = length (paramSquaredSum s)"
     "length cs = length (corSum s)"
    by blast
  have "lengths (snd (readResumeInfo w s)) = lengths s" unfolding r using l by (simp add: lengths_def)
  from wf_lengths [OF this] a show ?thesis by simp
qed

lemma wf_fresh_start:
  assumes "fresh_start e maxCL ws = Inr ws'" and "wf_mh (snd ws)"
  shows "wf_mh (snd ws')"
proof -
  from assms(1) obtain pr x where
    o: "openOut False (fst ws, x) = Inr ws'"
    and x: "x = (snd ws)\<lparr> maxChainLength := maxCL, current := starting (snd ws),
                currentLike := like (snd ws) (starting (snd ws)),
                currentPrior := pr, prev := starting (snd ws), iteration := 0,
                paramSum := replicate (nat (n_par (snd ws))) (Fin 0) @ drop (nat (n_par (snd ws))) (paramSum (snd ws)),
                paramSquaredSum := replicate (nat (n_par (snd ws))) (Fin 0) @ drop (nat (n_par (snd ws))) (paramSquaredSum (snd ws)),
                corSum := replicate (nat (n_par (snd ws))) (Fin 0) @ drop (nat (n_par (snd ws))) (corSum (snd ws)) \<rparr>"
    unfolding fresh_start_def Let_def by (auto split: sum.splits)
  have "lengths x = lengths (snd ws)"
    unfolding x using assms(2) by (simp add: lengths_def wf_mh_def Let_def)
  then have "wf_mh x" using wf_lengths assms(2) by blast
  moreover have "lengths (snd ws') = lengths x" using openOut_state [OF o] by simp
  ultimately show ?thesis using wf_lengths by blast
qed

lemma wf_run_start:
  assumes "run_start e maxCL ws = Inr st" and "wf_mh (snd ws)"
  shows "wf_mh (fst (snd st))"
proof -
  define w1 where "w1 = (fst ws)\<lparr> paramnames_file := Some (paramnames_text (snd ws)) \<rparr>"
  define r where "r = readResumeInfo w1 (snd ws)"
  have wr: "wf_mh (snd r)" unfolding r_def using assms(2) by (rule wf_readResumeInfo)
  from assms(1) obtain ws2 where
    s: "(if fst r then openOut True (w1, snd r) else fresh_start e maxCL (w1, snd r)) = Inr ws2"
    and st: "fst (snd st) = snd ws2"
    unfolding run_start_def Let_def r_def w1_def by (auto split: if_splits sum.splits)
  have "wf_mh (snd ws2)"
  proof (cases "fst r")
    case True
    with s have "openOut True (w1, snd r) = Inr ws2" by simp
    from openOut_state [OF this] have "lengths (snd ws2) = lengths (snd r)" by simp
    with wr wf_lengths show ?thesis by blast
  next
    case False
    with s have "fresh_start e maxCL (w1, snd r) = Inr ws2" by simp
    from wf_fresh_start [OF this] wr show ?thesis by simp
  qed
  then show ?thesis by (simp add: st)
qed

lemma wf_run_loop:
  "run_loop e b st = Inr st' \<Longrightarrow> wf_mh (fst (snd st)) \<Longrightarrow> wf_mh (fst (snd st'))"
proof (induction e b st rule: run_loop.induct)
  case (1 e b st)
  show ?case
  proof (cases "stop (fst (snd st))")
    case True
    with "1.prems" show ?thesis by (subst (asm) run_loop.simps) simp
  next
    case False
    from "1.prems" have "(case sweep e b st of Inl x \<Rightarrow> Inl x | Inr st1 \<Rightarrow> run_loop e b st1) = Inr st'"
      using False by (subst (asm) run_loop.simps) simp
    then obtain st1 where sw: "sweep e b st = Inr st1"
      and r: "run_loop e b st1 = Inr st'"
      by (cases "sweep e b st") auto
    from "1.IH" [OF False sw r] wf_sweep [OF sw "1.prems"(2)] show ?thesis by simp
  qed
qed

lemma wf_run:
  assumes "run e maxCL b ws = Inr st'" and "wf_mh (snd ws)"
  shows "wf_mh (fst (snd st'))"
proof -
  from assms(1) obtain st st1 where
    a: "run_start e maxCL ws = Inr st" and l: "run_loop e b st = Inr st1"
    and f: "fst (snd st') = closeOut (fst (snd st1))"
    unfolding run_def by (auto split: sum.splits)
  have "wf_mh (fst (snd st1))" using wf_run_loop [OF l] wf_run_start [OF a assms(2)] by simp
  moreover have "wf_mh (closeOut x) = wf_mh x" for x by (rule wf_lengths) simp
  ultimately show ?thesis by (simp add: f)
qed

section \<open>Example runs\<close>

text \<open>
  A world with no files in which every file can be written; the engine \<open>ex_mh1\<close> after
  its fresh start (\<open>ex_started\<close>), after one sweep (\<open>ex_swept\<close>) and after a resume from
  the checkpoint of \<open>ex_swept\<close> (\<open>ex_resumed\<close>); a checkpoint file whose code is 0
  (\<open>ex_corrupt\<close>); and an engine whose starting value 5 lies outside the range \<open>[0, 1]\<close>
  of its uniform prior (\<open>ex_outside\<close>), with its state after the fresh start (\<open>ex_zero\<close>).
\<close>

definition ex_world :: world where
  "ex_world = \<lparr> paramnames_file = None, chain_file = None, resume_file = None,
                writable = (\<lambda>f. True), rand_calls = 0 \<rparr>"

lemma ex_prior: "calculatePrior ex_env (ex_mh1\<lparr> current := starting ex_mh1 \<rparr>) = Inr (Fin 1)"
  by (simp add: calculatePrior_def ex_mh1_def ex_env_def prior_factor_def uniformPrior_def
      check_fails_def dgt_def dge_def dsub_def)

definition ex_started :: mh where
  "ex_started = fresh_state 1000 (Fin 1) ex_mh1"

lemma ex_started_eq:
  "ex_started = ex_mh1\<lparr> maxChainLength := 1000, currentLike := Fin 1, currentPrior := Fin 1,
                 current := [Fin (1 / 2)], prev := [Fin (1 / 2)], out_open := True \<rparr>"
  by (simp add: ex_started_def fresh_state_def ex_mh1_def ex_like_def)

lemma ex_trial:
  "block_trial ex_env 0 0 ex_started =
     Inr \<lparr> t_state = ex_started\<lparr> generator := Suc 0 \<rparr>, t_currentOld = [Fin (1 / 2)], t_oldLike = Fin 1,
           t_block = [Fin (1 / 2)], t_newPrior = Fin 1, t_p = Fin 1 \<rparr>"
  by (simp add: block_trial_def ex_started_eq ex_mh1_def ex_env_def propose_block_def
      block_range_ok_def generateNewPoint_def overwrite_block_def calculatePrior_def
      prior_factor_def uniformPrior_def check_fails_def dgt_def dge_def dsub_def
      acceptance_def ex_like_def Let_def)


lemma ex_q: "draw_q ex_env ex_world = Fin 0"
  by (simp add: draw_q_def ex_env_def ex_world_def)

lemma ex_step:
  "block_step ex_env 0 (0, ex_world, ex_started, [0]) =
     Inr (1, ex_world\<lparr> rand_calls := 1 \<rparr>, ex_started\<lparr> generator := Suc 0 \<rparr>, [1])"
proof -
  have b: "blocks ex_started ! 0 = 1" by (simp add: ex_started_eq ex_mh1_def)
  have r: "rand_calls ex_world = 0" by (simp add: ex_world_def)
  have cp: "currentPrior ex_started = Fin 1" by (simp add: ex_started_eq)
  show ?thesis
    unfolding block_step_def Let_def fst_conv snd_conv ex_trial sum.case block_decide_def ex_q b
    by (simp add: r cp)
qed


definition ex_swept :: mh where
  "ex_swept = ex_started\<lparr> generator := Suc 0, iteration := 1, paramSum := [Fin (1 / 2)],
                paramSquaredSum := [Fin (1 / 4)], corSum := [Fin (1 / 4)] \<rparr>"


lemma chain_row_generator [simp]: "chain_row (s\<lparr> generator := g \<rparr>) = chain_row s"
  by (simp add: chain_row_def)



definition ex_outside :: mh where
  "ex_outside = ex_mh1\<lparr> starting := [Fin 5] \<rparr>"


lemma ex_wf: "wf_mh ex_mh1" "wf_mh ex_outside"
  by (simp_all add: wf_mh_def ex_mh1_def ex_outside_def Let_def)







lemma ex_world_fields:
  "resume_file ex_world = None" "writable ex_world f" "rand_calls ex_world = 0"
  "chain_file ex_world = None"
  by (simp_all add: ex_world_def)

lemma ex_checks:
  "\<not> check_fails ex_env ((0::64 word) < 1000)" "\<not> check_fails ex_env (blocks ex_mh1 \<noteq> [])"
  "\<not> check_fails ex_env (blocks ex_outside \<noteq> [])" "\<not> out_open ex_mh1" "\<not> out_open ex_outside"
  by (simp_all add: check_fails_def ex_mh1_def ex_outside_def)

lemma ex_no_checkpoint:
  "\<not> fst (readResumeInfo ex_world ex_mh1)" "\<not> fst (readResumeInfo ex_world ex_outside)"
  by (simp_all add: readResumeInfo_absent ex_world_fields)

lemma ex_run_start:
  "run_start ex_env 1000 (ex_world, ex_mh1) =
     Inr (ex_world\<lparr> paramnames_file := Some (paramnames_text ex_mh1), chain_file := Some [] \<rparr>,
          ex_started, replicate (length (blocks ex_mh1)) 0)"
  using run_start_fresh [OF ex_wf(1) ex_checks(1,2) ex_world_fields(2) ex_world_fields(2)
      ex_checks(4) ex_no_checkpoint(1)]
  by (simp add: ex_prior ex_started_def)





lemma ex_swept_wf: "wf_mh ex_swept"
  by (simp add: wf_mh_def ex_swept_def ex_started_eq ex_mh1_def Let_def)

lemma ex_swept_fields:
  "n_par ex_swept = 1" "iteration ex_swept = 1" "maxChainLength ex_swept = 1000"
  by (simp_all add: ex_swept_def ex_started_eq ex_mh1_def)

definition ex_resumed :: mh where
  "ex_resumed = (restored ex_swept ex_mh1)\<lparr> out_open := True, out_fail := False \<rparr>"

lemma ex_round_trip:
  "readResumeInfo (writeResumeInfo ex_world ex_swept) ex_mh1 = (True, restored ex_swept ex_mh1)"
  by (rule round_trip) (simp_all add: ex_world_fields ex_swept_wf ex_wf ex_swept_fields, simp add: ex_mh1_def)

lemma ex_world_written:
  "writable (writeResumeInfo ex_world ex_swept) f"
  "chain_file (writeResumeInfo ex_world ex_swept) = None"
  by (simp_all add: writeResumeInfo_def ex_world_def)

lemma ex_checks_small:
  "\<not> check_fails ex_env ((0::64 word) < 5)" "\<not> check_fails ex_env ((0::64 word) < 7)"
  by (simp_all add: check_fails_def)

lemma ex_resume_start:
  "\<not> check_fails ex_env (0 < m) \<Longrightarrow>
   run_start ex_env m (writeResumeInfo ex_world ex_swept, ex_mh1) =
     Inr ((writeResumeInfo ex_world ex_swept)\<lparr> paramnames_file := Some (paramnames_text ex_mh1),
              chain_file := Some [] \<rparr>,
          ex_resumed, replicate (length (blocks ex_mh1)) 0)"
  using run_start_resume [OF _ ex_checks(2) ex_world_written(1) ex_world_written(1) ex_checks(4) ex_round_trip]
  by (simp add: ex_world_written(2) ex_resumed_def)

lemma ex_resumed_ok: "run_ok ex_env (w\<lparr> chain_file := c \<rparr>) ex_resumed = writable w ChainFile"
  by (simp add: run_ok_def ex_resumed_def restored_def prior_ok_def proposal_ok_def ex_mh1_def dgt_def)

lemma ex_resumed_iteration: "iteration ex_resumed = 1"
  by (simp add: ex_resumed_def restored_def ex_swept_fields)




lemma ex_show_no_newline: "\<forall>d. CHR 0x0A \<notin> set (show_double ex_env d)"
proof
  fix d show "CHR 0x0A \<notin> set (show_double ex_env d)"
    by (cases d) (simp_all add: ex_env_def ex_show_def)
qed



section \<open>The acceptance probability\<close>







section \<open>Acceptance and rejection\<close>



section \<open>The length of a run\<close>




section \<open>The checkpoint round trip\<close>

text \<open>
  Claim C5. When the checkpoint file can be opened for writing, \<^verbatim>\<open>readResumeInfo\<close> after
  \<^verbatim>\<open>writeResumeInfo\<close> returns true and restores \<open>maxChainLength\<close>, \<open>iteration\<close>, the
  current likelihood and prior, the current and previous vectors and the three sums to
  the saved values. The engines have the same number of parameters, vectors of that
  length and the code 123456, as every engine that the class can reach has them
  (\<open>wf_constructor\<close> to \<open>wf_run\<close>). A run that starts from this checkpoint starts
  with the saved iteration count \<open>N\<close>, and after \<open>M\<close> more sweeps the count is
  \<open>N + M\<close>.
\<close>

theorem checkpoint_round_trip:
  assumes "writable w ResumeFile" and "wf_mh s" and "wf_mh s1" and "n_par s1 = n_par s"
  shows "readResumeInfo (writeResumeInfo w s) s1 =
           (True, s1\<lparr> maxChainLength := maxChainLength s, iteration := iteration s,
                       currentLike := currentLike s, currentPrior := currentPrior s,
                       current := current s, prev := prev s, paramSum := paramSum s,
                       paramSquaredSum := paramSquaredSum s, corSum := corSum s \<rparr>)
     \<and> (\<forall>e maxCL b M w2 s2 acc st'.
           run_start e maxCL (writeResumeInfo w s, s1) = Inr (w2, s2, acc)
           \<and> sweeps e b M (w2, s2, acc) = Inr st'
           \<and> unat (iteration s) + M < 2 ^ 64
           \<longrightarrow> iteration s2 = iteration s
               \<and> unat (iteration (fst (snd st'))) = unat (iteration s) + M)"
proof (intro conjI allI impI)
  show rt: "readResumeInfo (writeResumeInfo w s) s1 =
           (True, s1\<lparr> maxChainLength := maxChainLength s, iteration := iteration s,
                       currentLike := currentLike s, currentPrior := currentPrior s,
                       current := current s, prev := prev s, paramSum := paramSum s,
                       paramSquaredSum := paramSquaredSum s, corSum := corSum s \<rparr>)"
    using round_trip [OF assms] by (simp add: restored_def)
  fix e maxCL b M w2 s2 acc st'
  assume a: "run_start e maxCL (writeResumeInfo w s, s1) = Inr (w2, s2, acc)
           \<and> sweeps e b M (w2, s2, acc) = Inr st'
           \<and> unat (iteration s) + M < 2 ^ 64"
  have "fst (readResumeInfo (writeResumeInfo w s) s1)" by (simp add: rt)
  from run_start_resumed_state [OF this] a
  have "s2 = (snd (readResumeInfo (writeResumeInfo w s) s1))\<lparr> out_open := True, out_fail := False \<rparr>"
    by blast
  then show i: "iteration s2 = iteration s" by (simp add: rt)
  from a have sw: "sweeps e b M (w2, s2, acc) = Inr st'"
    and lt: "unat (iteration (fst (snd (w2, s2, acc)))) + M < 2 ^ 64"
    using i by simp_all
  from sweeps_count [OF sw lt] i
  show "unat (iteration (fst (snd st'))) = unat (iteration s) + M" by simp
qed

text \<open>
  The theorem at the checkpoint of \<open>ex_swept\<close> (one sweep done), loaded into \<open>ex_mh1\<close>:
  the resumed run starts at iteration 1, and one more sweep gives 2.
\<close>

theorem checkpoint_round_trip_witness:
  "writable ex_world ResumeFile \<and> wf_mh ex_swept \<and> wf_mh ex_mh1 \<and> n_par ex_mh1 = n_par ex_swept
   \<and> fst (readResumeInfo (writeResumeInfo ex_world ex_swept) ex_mh1)
   \<and> iteration ex_swept = 1
   \<and> (\<exists>w2 s2 acc st'.
         run_start ex_env 1000 (writeResumeInfo ex_world ex_swept, ex_mh1) = Inr (w2, s2, acc)
         \<and> sweeps ex_env True 1 (w2, s2, acc) = Inr st'
         \<and> iteration s2 = 1
         \<and> unat (iteration (fst (snd st'))) = 2)"
proof -
  have h: "writable ex_world ResumeFile" "wf_mh ex_swept" "wf_mh ex_mh1" "n_par ex_mh1 = n_par ex_swept"
    by (simp_all add: ex_world_fields ex_swept_wf ex_wf ex_swept_fields, simp add: ex_mh1_def)
  note th = checkpoint_round_trip [OF h]
  define w2 where "w2 = (writeResumeInfo ex_world ex_swept)\<lparr> paramnames_file := Some (paramnames_text ex_mh1),
              chain_file := Some [] \<rparr>"
  have rs: "run_start ex_env 1000 (writeResumeInfo ex_world ex_swept, ex_mh1) =
      Inr (w2, ex_resumed, replicate (length (blocks ex_mh1)) 0)"
    unfolding w2_def by (rule ex_resume_start) (rule ex_checks(1))
  have ok: "run_ok ex_env w2 ex_resumed"
    unfolding w2_def by (simp add: ex_resumed_ok ex_world_written)
  from sweep_succeeds [OF ok, of True "replicate (length (blocks ex_mh1)) 0"] obtain st' where
    sw: "sweep ex_env True (w2, ex_resumed, replicate (length (blocks ex_mh1)) 0) = Inr st'"
    by blast
  have sws: "sweeps ex_env True 1 (w2, ex_resumed, replicate (length (blocks ex_mh1)) 0) = Inr st'"
    using sw by simp
  have lt: "unat (iteration ex_swept) + 1 < 2 ^ 64" by (simp add: ex_swept_fields)
  from th [THEN conjunct2, rule_format, OF conjI [OF rs conjI [OF sws lt]]]
  have "iteration ex_resumed = iteration ex_swept
      \<and> unat (iteration (fst (snd st'))) = unat (iteration ex_swept) + 1" .
  then have "iteration ex_resumed = 1 \<and> unat (iteration (fst (snd st'))) = 2"
    by (simp add: ex_swept_fields)
  with rs sws have "\<exists>w2 s2 acc st'.
         run_start ex_env 1000 (writeResumeInfo ex_world ex_swept, ex_mh1) = Inr (w2, s2, acc)
         \<and> sweeps ex_env True 1 (w2, s2, acc) = Inr st'
         \<and> iteration s2 = 1
         \<and> unat (iteration (fst (snd st'))) = 2"
    by blast
  moreover have "fst (readResumeInfo (writeResumeInfo ex_world ex_swept) ex_mh1)"
    using th [THEN conjunct1] by simp
  ultimately show ?thesis using h ex_swept_fields(2) by (intro conjI)
qed

section \<open>A missing or corrupt checkpoint\<close>



section \<open>A starting point of zero prior density\<close>






section \<open>The rows of the chain file\<close>




section \<open>The argument \<open>maxChainLength\<close> on a resume\<close>

text \<open>
  Claim C10. When \<^verbatim>\<open>readResumeInfo\<close> loads a checkpoint, \<open>run\<close> gives the same result for
  every two arguments \<open>maxChainLength\<close> that pass the check: the member that \<open>stop\<close> reads
  is the first cell of the checkpoint file, after the start of \<open>run\<close> and at its end. On
  a fresh start the member is the argument.
\<close>

theorem resume_ignores_argument:
  assumes "wf_mh s" and "resume_file w = Some cells" and "fst (readResumeInfo w s)"
    and "\<not> check_fails e (0 < m1)" and "\<not> check_fails e (0 < m2)"
  shows "run e m1 b (w, s) = run e m2 b (w, s)
     \<and> (\<exists>v rest. cells = CULong v # rest
          \<and> (\<forall>w' s' acc. run_start e m1 (w, s) = Inr (w', s', acc) \<longrightarrow> maxChainLength s' = v)
          \<and> (\<forall>w' s' acc. run e m1 b (w, s) = Inr (w', s', acc) \<longrightarrow> maxChainLength s' = v))
     \<and> (\<forall>w0 s0 m w' s' acc.
           \<not> fst (readResumeInfo w0 s0) \<and> run_start e m (w0, s0) = Inr (w', s', acc)
           \<longrightarrow> maxChainLength s' = m)"
proof (intro conjI)
  show "run e m1 b (w, s) = run e m2 b (w, s)"
    using run_start_arg_ignored [OF assms(3,4,5)] by (simp add: run_def)
  from read_success_layout [OF assms(1,2,3)] obtain a b' c d v5 v6 v7 v8 v9 rest where
    cells: "cells = [CULong a, CULong b', CDouble c, CDouble d]
               @ map CDouble v5 @ map CDouble v6 @ map CDouble v7 @ map CDouble v8
               @ map CDouble v9 @ CInt (resumeCode s) # rest"
    and rd: "readResumeInfo w s =
         (True, s\<lparr> maxChainLength := a, iteration := b', currentLike := c, currentPrior := d,
                   current := v5, prev := v6, paramSum := v7, paramSquaredSum := v8,
                   corSum := v9 \<rparr>)"
    by blast
  have st: "\<And>w' s' acc. run_start e m1 (w, s) = Inr (w', s', acc) \<Longrightarrow> maxChainLength s' = a"
  proof -
    fix w' s' acc
    assume "run_start e m1 (w, s) = Inr (w', s', acc)"
    from run_start_resumed_state [OF assms(3) this] show "maxChainLength s' = a"
      by (simp add: rd)
  qed
  have fin: "\<And>w' s' acc. run e m1 b (w, s) = Inr (w', s', acc) \<Longrightarrow> maxChainLength s' = a"
  proof -
    fix w' s' acc
    assume r: "run e m1 b (w, s) = Inr (w', s', acc)"
    then obtain st0 st1 where r0: "run_start e m1 (w, s) = Inr st0"
      and r1: "run_loop e b st0 = Inr st1" and s': "s' = closeOut (fst (snd st1))"
      by (auto simp: run_def split: sum.splits)
    obtain w0 s0 acc0 where st0: "st0 = (w0, s0, acc0)" by (cases st0) auto
    from st [of w0 s0 acc0] r0 st0 have "maxChainLength s0 = a" by simp
    with run_loop_maxChainLength [OF r1] st0 s' show "maxChainLength s' = a"
      by simp
  qed
  show "\<exists>v rest. cells = CULong v # rest
          \<and> (\<forall>w' s' acc. run_start e m1 (w, s) = Inr (w', s', acc) \<longrightarrow> maxChainLength s' = v)
          \<and> (\<forall>w' s' acc. run e m1 b (w, s) = Inr (w', s', acc) \<longrightarrow> maxChainLength s' = v)"
    using cells st fin by (intro exI [of _ a]) auto
  show "\<forall>w0 s0 m w' s' acc.
           \<not> fst (readResumeInfo w0 s0) \<and> run_start e m (w0, s0) = Inr (w', s', acc)
           \<longrightarrow> maxChainLength s' = m"
    using run_start_fresh_max by blast
qed

text \<open>
  The theorem at the checkpoint of \<open>ex_swept\<close>, written with \<open>maxChainLength = 1000\<close>: the
  arguments 5 and 7 give the same run, which starts with the maximum 1000; without the
  checkpoint the argument 5 is the maximum.
\<close>

theorem resume_ignores_argument_witness:
  "wf_mh ex_mh1
   \<and> resume_file (writeResumeInfo ex_world ex_swept) = Some (resume_cells ex_swept)
   \<and> fst (readResumeInfo (writeResumeInfo ex_world ex_swept) ex_mh1)
   \<and> run ex_env 5 True (writeResumeInfo ex_world ex_swept, ex_mh1)
       = run ex_env 7 True (writeResumeInfo ex_world ex_swept, ex_mh1)
   \<and> (\<exists>w' s' acc. run_start ex_env 5 (writeResumeInfo ex_world ex_swept, ex_mh1) = Inr (w', s', acc)
          \<and> maxChainLength s' = 1000)
   \<and> \<not> fst (readResumeInfo ex_world ex_mh1)
   \<and> (\<exists>w' s' acc. run_start ex_env 5 (ex_world, ex_mh1) = Inr (w', s', acc)
          \<and> maxChainLength s' = 5)"
proof -
  let ?w = "writeResumeInfo ex_world ex_swept"
  have f: "resume_file ?w = Some (resume_cells ex_swept)"
    by (simp add: writeResumeInfo_def ex_world_def)
  have r: "fst (readResumeInfo ?w ex_mh1)" by (simp add: ex_round_trip)
  note th = resume_ignores_argument [OF ex_wf(1) f r ex_checks_small, of True]
  have eq: "run ex_env 5 True (?w, ex_mh1) = run ex_env 7 True (?w, ex_mh1)"
    using th by (rule conjunct1)
  from th [THEN conjunct2, THEN conjunct1] obtain v rest where
    c: "resume_cells ex_swept = CULong v # rest"
    and st: "\<forall>w' s' acc. run_start ex_env 5 (?w, ex_mh1) = Inr (w', s', acc) \<longrightarrow> maxChainLength s' = v"
    by blast
  from c have v: "v = 1000" by (simp add: resume_cells_def ex_swept_fields)
  have rs: "run_start ex_env 5 (?w, ex_mh1) =
     Inr (?w\<lparr> paramnames_file := Some (paramnames_text ex_mh1), chain_file := Some [] \<rparr>,
          ex_resumed, replicate (length (blocks ex_mh1)) 0)"
    by (rule ex_resume_start) (rule ex_checks_small(1))
  from st [rule_format, OF rs] v have "maxChainLength ex_resumed = 1000" by simp
  with rs have e1: "\<exists>w' s' acc. run_start ex_env 5 (?w, ex_mh1) = Inr (w', s', acc)
          \<and> maxChainLength s' = 1000"
    by blast
  have fr: "run_start ex_env 5 (ex_world, ex_mh1) =
     Inr (ex_world\<lparr> paramnames_file := Some (paramnames_text ex_mh1), chain_file := Some [] \<rparr>,
          fresh_state 5 (Fin 1) ex_mh1, replicate (length (blocks ex_mh1)) 0)"
    using run_start_fresh [OF ex_wf(1) ex_checks_small(1) ex_checks(2) ex_world_fields(2)
      ex_world_fields(2) ex_checks(4) ex_no_checkpoint(1)]
    by (simp add: ex_prior)
  from th [THEN conjunct2, THEN conjunct2, rule_format, OF conjI [OF ex_no_checkpoint(1) fr]]
  have "maxChainLength (fresh_state 5 (Fin 1) ex_mh1) = 5" .
  with fr have e2: "\<exists>w' s' acc. run_start ex_env 5 (ex_world, ex_mh1) = Inr (w', s', acc)
          \<and> maxChainLength s' = 5"
    by blast
  show ?thesis using ex_wf(1) f r eq e1 ex_no_checkpoint(1) e2 by (intro conjI)
qed

end
